theory Spec2Isabelle
  imports Complex_Main "HOL-Library.Product_Lexorder" "HOL-Library.Char_ord" "HOL-Library.List_Lexorder"
begin

section \<open>Errors\<close>

text \<open>
  Every exception the two components can raise is a value of this type. The
  string carried by \<open>ValueError\<close> is the message (the two messages of
  \<open>MonthlySplit.split\<close> are the source's own; the others abbreviate the
  messages of the validation helpers).
\<close>

datatype error =
    ValueError string
  | NotFittedError
  | AttributeError
  | KeyError
  | IndexError
  | AssertionError

section \<open>Nearest-neighbour classifier\<close>

type_synonym row = "real list"
type_synonym matrix = "row list"
type_synonym label = real

subsection \<open>Validation helpers and numeric helpers the classifier calls\<close>

text \<open>
  Modelled from the spec: \<open>check_array\<close>, \<open>check_X_y\<close>,
  \<open>check_classification_targets\<close>, \<open>check_is_fitted\<close>,
  \<open>pairwise_distances\<close>, \<open>np.unique\<close> and \<open>np.argsort\<close> are library
  functions that the source imports and calls; their code is not part of the
  repository. They are modelled from the contract the specification states
  (shape validation: non-empty, rectangular, at least one feature, matching row
  counts; classification target: discrete labels; Euclidean distance; sorted
  distinct classes). \<open>euclidean\<close> is the exact distance over the reals. The
  program ranks the double-precision values \<open>pairwise_distances\<close> computes,
  which agree with the exact distance on the small integer rows evaluated in
  this theory but not in general; a statement that depends on which rows tie
  is made about \<open>predict_by\<close> and \<open>score_by\<close> below, which take the computed
  distance as a parameter.
\<close>

definition check_array :: "matrix \<Rightarrow> error + matrix" where
  "check_array X =
     (if X = [] then Inl (ValueError ''Expected 2D array, got 1D array instead'')
      else if \<exists>r \<in> set X. length r \<noteq> length (hd X)
        then Inl (ValueError ''inhomogeneous shape'')
      else if length (hd X) = 0 then Inl (ValueError ''Found array with 0 feature(s)'')
      else Inr X)"

definition check_X_y :: "matrix \<Rightarrow> label list \<Rightarrow> error + (matrix \<times> label list)" where
  "check_X_y X y =
     (case check_array X of
        Inl e \<Rightarrow> Inl e
      | Inr X' \<Rightarrow>
          if length X' \<noteq> length y
          then Inl (ValueError ''Found input variables with inconsistent numbers of samples'')
          else Inr (X', y))"

definition is_discrete :: "label \<Rightarrow> bool" where
  "is_discrete v \<longleftrightarrow> of_int \<lfloor>v\<rfloor> = v"

definition check_classification_targets :: "label list \<Rightarrow> error + unit" where
  "check_classification_targets y =
     (if list_all is_discrete y then Inr () else Inl (ValueError ''Unknown label type''))"

definition np_unique :: "label list \<Rightarrow> label list" where
  "np_unique y = sort (remdups y)"

definition euclidean :: "row \<Rightarrow> row \<Rightarrow> real" where
  "euclidean x y = sqrt (\<Sum>(a, b) \<leftarrow> zip x y. (a - b)\<^sup>2)"

definition pairwise_distances :: "matrix \<Rightarrow> matrix \<Rightarrow> error + real list list" where
  "pairwise_distances X Y =
     (case check_array X of
        Inl e \<Rightarrow> Inl e
      | Inr X' \<Rightarrow>
         (case check_array Y of
            Inl e \<Rightarrow> Inl e
          | Inr Y' \<Rightarrow>
              if length (hd X') \<noteq> length (hd Y')
              then Inl (ValueError ''Incompatible dimension for X and Y matrices'')
              else Inr (map (\<lambda>x. map (euclidean x) Y') X')))"


text \<open>A sorting routine that keeps the promise, for evaluating examples: rows of
  equal value stay in ascending position.\<close>

definition stable_argsort :: "real list \<Rightarrow> nat list" where
  "stable_argsort ds = sort_key (\<lambda>i. ds ! i) [0..<length ds]"

text \<open>Python's slice \<open>xs[:k]\<close>: a negative bound counts from the end.\<close>

definition slice_to :: "int \<Rightarrow> 'a list \<Rightarrow> 'a list" where
  "slice_to k xs = (if 0 \<le> k then take (nat k) xs else take (length xs - nat (- k)) xs)"

text \<open>Indexing an array with a list of positions: out of range raises.\<close>

definition take_positions :: "'a list \<Rightarrow> nat list \<Rightarrow> error + 'a list" where
  "take_positions ys ps =
     (if list_all (\<lambda>p. p < length ys) ps then Inr (map (\<lambda>p. ys ! p) ps) else Inl IndexError)"

subsection \<open>most_common_label\<close>

text \<open>
  \<open>Counter(array)\<close> is a dictionary in insertion order, an association list
  here: a label met again has its count raised in place, a new label goes to
  the end. \<open>most_common(1)\<close> is \<open>max\<close> over the items by count, which keeps the
  first of several maximal items.
\<close>

fun counter_add :: "'a \<Rightarrow> ('a \<times> nat) list \<Rightarrow> ('a \<times> nat) list" where
  "counter_add x [] = [(x, 1)]"
| "counter_add x ((k, c) # cs) =
     (if k = x then (k, Suc c) # cs else (k, c) # counter_add x cs)"

definition Counter :: "'a list \<Rightarrow> ('a \<times> nat) list" where
  "Counter array = foldl (\<lambda>cs x. counter_add x cs) [] array"

fun max_by_count :: "('a \<times> nat) \<Rightarrow> ('a \<times> nat) list \<Rightarrow> ('a \<times> nat)" where
  "max_by_count best [] = best"
| "max_by_count best (kc # cs) = max_by_count (if snd best < snd kc then kc else best) cs"

definition most_common_1 :: "('a \<times> nat) list \<Rightarrow> ('a \<times> nat) list" where
  "most_common_1 counter = (case counter of [] \<Rightarrow> [] | kc # cs \<Rightarrow> [max_by_count kc cs])"

definition most_common_label :: "'a list \<Rightarrow> 'a option" where
  "most_common_label array =
     (case most_common_1 (Counter array) of [] \<Rightarrow> None | kc # _ \<Rightarrow> Some (fst kc))"

subsection \<open>KNearestNeighbors\<close>

text \<open>
  The instance: the constructor parameter and the four attributes \<open>fit\<close>
  writes, each absent (\<open>None\<close>) until written. The attributes are the source's
  \<open>X_\<close>, \<open>y_\<close>, \<open>n_features_in_\<close> and \<open>classes_\<close>; a name cannot end in an
  underscore here.
\<close>

record KNearestNeighbors =
  n_neighbors :: int
  X_fitted :: "matrix option"
  y_fitted :: "label list option"
  n_features_in :: "nat option"
  classes :: "label list option"

definition init :: "int \<Rightarrow> KNearestNeighbors" where
  "init k = \<lparr>n_neighbors = k, X_fitted = None, y_fitted = None, n_features_in = None, classes = None\<rparr>"

definition check_is_fitted :: "KNearestNeighbors \<Rightarrow> bool" where
  "check_is_fitted self \<longleftrightarrow>
     X_fitted self \<noteq> None \<or> y_fitted self \<noteq> None \<or> n_features_in self \<noteq> None \<or> classes self \<noteq> None"

text \<open>\<open>fit\<close> returns its outcome together with the instance as it is left.\<close>

definition fit :: "KNearestNeighbors \<Rightarrow> matrix \<Rightarrow> label list
    \<Rightarrow> (error + unit) \<times> KNearestNeighbors" where
  "fit self X y =
     (case check_X_y X y of
        Inl e \<Rightarrow> (Inl e, self)
      | Inr (X', y') \<Rightarrow>
         (case check_classification_targets y' of
            Inl e \<Rightarrow> (Inl e, self)
          | Inr _ \<Rightarrow>
              (Inr (),
               self\<lparr>X_fitted := Some X', y_fitted := Some y',
                    n_features_in := Some (length (hd X')),
                    classes := Some (np_unique y')\<rparr>)))"

text \<open>The positions consulted for each query row: \<open>closest\<close> in the source.\<close>

definition closest :: "(real list \<Rightarrow> nat list) \<Rightarrow> int \<Rightarrow> real list list \<Rightarrow> nat list list" where
  "closest argsort k D = map (\<lambda>ds. slice_to k (argsort ds)) D"

fun label_rows :: "label list \<Rightarrow> nat list list \<Rightarrow> error + label option list" where
  "label_rows ys [] = Inr []"
| "label_rows ys (ps # pss) =
     (case take_positions ys ps of
        Inl e \<Rightarrow> Inl e
      | Inr ls \<Rightarrow>
         (case label_rows ys pss of
            Inl e \<Rightarrow> Inl e
          | Inr rest \<Rightarrow> Inr (most_common_label ls # rest)))"

definition predict :: "(real list \<Rightarrow> nat list) \<Rightarrow> KNearestNeighbors \<Rightarrow> matrix
    \<Rightarrow> error + label option list" where
  "predict argsort self X =
     (if \<not> check_is_fitted self then Inl NotFittedError
      else case check_array X of
        Inl e \<Rightarrow> Inl e
      | Inr X' \<Rightarrow>
         (case X_fitted self of
            None \<Rightarrow> Inl AttributeError
          | Some Xt \<Rightarrow>
             (case pairwise_distances X' Xt of
                Inl e \<Rightarrow> Inl e
              | Inr D \<Rightarrow>
                 (case y_fitted self of
                    None \<Rightarrow> Inl AttributeError
                  | Some yt \<Rightarrow> label_rows yt (closest argsort (n_neighbors self) D)))))"

text \<open>\<open>y == y_pred\<close> compares element by element, stretching a one-element side.\<close>

definition np_equal :: "label list \<Rightarrow> label option list \<Rightarrow> error + bool list" where
  "np_equal y p =
     (if length y = length p then Inr (map (\<lambda>(a, q). Some a = q) (zip y p))
      else if length y = 1 then Inr (map (\<lambda>q. Some (hd y) = q) p)
      else if length p = 1 then Inr (map (\<lambda>a. Some a = hd p) y)
      else Inl (ValueError ''operands could not be broadcast together''))"

text \<open>The mean of an empty array is not a number.\<close>

datatype np_float = Float real | NaN

definition mean :: "bool list \<Rightarrow> np_float" where
  "mean bs = (if bs = [] then NaN else Float (real (length (filter id bs)) / real (length bs)))"

definition score :: "(real list \<Rightarrow> nat list) \<Rightarrow> KNearestNeighbors \<Rightarrow> matrix \<Rightarrow> label list
    \<Rightarrow> error + np_float" where
  "score argsort self X y =
     (case check_classification_targets y of
        Inl e \<Rightarrow> Inl e
      | Inr _ \<Rightarrow>
         (case predict argsort self X of
            Inl e \<Rightarrow> Inl e
          | Inr y_pred \<Rightarrow>
             (case np_equal y y_pred of
                Inl e \<Rightarrow> Inl e
              | Inr hits \<Rightarrow> Inr (mean hits))))"

text \<open>
  The same \<open>pairwise_distances\<close>, \<open>predict\<close> and \<open>score\<close> with the distance
  computed for a pair of rows as the parameter \<open>distance\<close>; at \<open>euclidean\<close> they are
  the definitions above.
\<close>

definition pairwise_distances_by :: "(row \<Rightarrow> row \<Rightarrow> real) \<Rightarrow> matrix \<Rightarrow> matrix
    \<Rightarrow> error + real list list" where
  "pairwise_distances_by distance X Y =
     (case check_array X of
        Inl e \<Rightarrow> Inl e
      | Inr X' \<Rightarrow>
         (case check_array Y of
            Inl e \<Rightarrow> Inl e
          | Inr Y' \<Rightarrow>
              if length (hd X') \<noteq> length (hd Y')
              then Inl (ValueError ''Incompatible dimension for X and Y matrices'')
              else Inr (map (\<lambda>x. map (distance x) Y') X')))"

definition predict_by :: "(row \<Rightarrow> row \<Rightarrow> real) \<Rightarrow> (real list \<Rightarrow> nat list)
    \<Rightarrow> KNearestNeighbors \<Rightarrow> matrix \<Rightarrow> error + label option list" where
  "predict_by distance argsort self X =
     (if \<not> check_is_fitted self then Inl NotFittedError
      else case check_array X of
        Inl e \<Rightarrow> Inl e
      | Inr X' \<Rightarrow>
         (case X_fitted self of
            None \<Rightarrow> Inl AttributeError
          | Some Xt \<Rightarrow>
             (case pairwise_distances_by distance X' Xt of
                Inl e \<Rightarrow> Inl e
              | Inr D \<Rightarrow>
                 (case y_fitted self of
                    None \<Rightarrow> Inl AttributeError
                  | Some yt \<Rightarrow> label_rows yt (closest argsort (n_neighbors self) D)))))"

definition score_by :: "(row \<Rightarrow> row \<Rightarrow> real) \<Rightarrow> (real list \<Rightarrow> nat list)
    \<Rightarrow> KNearestNeighbors \<Rightarrow> matrix \<Rightarrow> label list \<Rightarrow> error + np_float" where
  "score_by distance argsort self X y =
     (case check_classification_targets y of
        Inl e \<Rightarrow> Inl e
      | Inr _ \<Rightarrow>
         (case predict_by distance argsort self X of
            Inl e \<Rightarrow> Inl e
          | Inr y_pred \<Rightarrow>
             (case np_equal y y_pred of
                Inl e \<Rightarrow> Inl e
              | Inr hits \<Rightarrow> Inr (mean hits))))"

section \<open>Monthly splitter\<close>

subsection \<open>Tables\<close>

text \<open>
  Modelled from the spec: the table (a pandas \<open>DataFrame\<close>), its \<open>Index\<close> and
  its \<open>Series\<close> are library types whose code is not part of the repository.
  The model keeps what \<open>MonthlySplit\<close> reads: the values of the index and of
  each column, whether the index is a \<open>DatetimeIndex\<close>, the dtype of the index
  and of each column, and the column labels in order (labels may repeat). A
  chronological value carries its year, its month and its offset inside the
  month; a value of another kind has no \<open>year\<close> attribute.
\<close>

datatype obj = Timestamp int int nat | Text string | Number int

datatype dtype = Datetime64_ns | Datetime64_ns_tz string | Datetime64_s | Object_dtype | Int64

record pd_index =
  is_DatetimeIndex :: bool
  index_dtype :: dtype
  index_values :: "obj list"

record series =
  series_dtype :: dtype
  series_values :: "obj list"

record dataframe =
  index :: pd_index
  columns :: "(string \<times> series) list"

datatype selection = Series series | DataFrame "series list"

text \<open>\<open>X[name]\<close>: a missing label raises, one match is a \<open>Series\<close>, several matches
  are a \<open>DataFrame\<close>.\<close>

definition getitem :: "dataframe \<Rightarrow> string \<Rightarrow> error + selection" where
  "getitem X name =
     (case filter (\<lambda>c. fst c = name) (columns X) of
        [] \<Rightarrow> Inl KeyError
      | [c] \<Rightarrow> Inr (Series (snd c))
      | c # cs \<Rightarrow> Inr (DataFrame (map snd (c # cs))))"

text \<open>\<open>(date.year, date.month)\<close>: only a chronological value has the attributes.\<close>

fun year_month :: "obj \<Rightarrow> error + (int \<times> int)" where
  "year_month (Timestamp y m t) = Inr (y, m)"
| "year_month (Text s) = Inl AttributeError"
| "year_month (Number n) = Inl AttributeError"

fun year_months :: "obj list \<Rightarrow> error + (int \<times> int) list" where
  "year_months [] = Inr []"
| "year_months (date # dates) =
     (case year_month date of
        Inl e \<Rightarrow> Inl e
      | Inr k \<Rightarrow>
         (case year_months dates of
            Inl e \<Rightarrow> Inl e
          | Inr ks \<Rightarrow> Inr (k # ks)))"

text \<open>The order of index values, as far as \<open>get_loc\<close> needs it: values of one kind
  compare, values of different kinds do not.\<close>

fun obj_le :: "obj \<Rightarrow> obj \<Rightarrow> bool" where
  "obj_le (Timestamp y m t) (Timestamp y' m' t') = ((y, m, t) \<le> (y', m', t'))"
| "obj_le (Text a) (Text b) = (a \<le> b)"
| "obj_le (Number a) (Number b) = (a \<le> b)"
| "obj_le _ _ = False"

definition is_monotonic_increasing :: "obj list \<Rightarrow> bool" where
  "is_monotonic_increasing vs = successively obj_le vs"

text \<open>
  \<open>Index.get_loc(key)\<close>: the integer position when the key occurs once; when it
  occurs several times, a slice of the run of equal keys if the index is
  monotonic and a boolean mask over the index otherwise; an error when it does
  not occur.
\<close>

datatype loc = Position nat | Slice nat nat | Mask "bool list"

definition get_loc :: "obj list \<Rightarrow> obj \<Rightarrow> error + loc" where
  "get_loc idx key =
     (case filter (\<lambda>p. idx ! p = key) [0..<length idx] of
        [] \<Rightarrow> Inl KeyError
      | [p] \<Rightarrow> Inr (Position p)
      | p # q # ps \<Rightarrow>
          if is_monotonic_increasing idx then Inr (Slice p (p + length (p # q # ps)))
          else Inr (Mask (map (\<lambda>v. v = key) idx)))"

text \<open>
  Modelled from the spec: what the library's types guarantee about a table.
  A \<open>DatetimeIndex\<close> holds chronological values only, and so does a column of
  a datetime dtype, whatever its unit or time zone.
\<close>

fun is_timestamp :: "obj \<Rightarrow> bool" where
  "is_timestamp (Timestamp y m t) = True"
| "is_timestamp (Text s) = False"
| "is_timestamp (Number n) = False"



subsection \<open>MonthlySplit\<close>

text \<open>The splitter is its one parameter \<open>time_col\<close>, passed as the first argument.\<close>

definition get_n_splits :: "string \<Rightarrow> dataframe \<Rightarrow> error + int" where
  "get_n_splits time_col X =
     (if time_col = ''index'' then
        (case year_months (index_values (index X)) of
           Inl e \<Rightarrow> Inl e
         | Inr unique_year_month \<Rightarrow> Inr (int (length (remdups unique_year_month)) - 1))
      else
        (case getitem X time_col of
           Inl e \<Rightarrow> Inl e
         | Inr (Series s) \<Rightarrow>
            (case year_months (series_values s) of
               Inl e \<Rightarrow> Inl e
             | Inr unique_year_month \<Rightarrow> Inr (int (length (remdups unique_year_month)) - 1))
         | Inr (DataFrame cs) \<Rightarrow> Inl AttributeError))"

text \<open>Lines 216 to 224 of the source: the check of the time source and the
  (year, month) key of every row, \<open>df\<close> in the source.\<close>

definition month_keys :: "string \<Rightarrow> dataframe \<Rightarrow> error + (int \<times> int) list" where
  "month_keys time_col X =
     (if time_col = ''index'' then
        (if \<not> is_DatetimeIndex (index X)
         then Inl (ValueError ''Index of the DataFrame is not datetime'')
         else year_months (index_values (index X)))
      else
        (case getitem X time_col of
           Inl e \<Rightarrow> Inl e
         | Inr (DataFrame cs) \<Rightarrow> Inl (ValueError ''The splitting column is not a datetime'')
         | Inr (Series s) \<Rightarrow>
            if series_dtype s \<noteq> Datetime64_ns
            then Inl (ValueError ''The splitting column is not a datetime'')
            else year_months (series_values s)))"

text \<open>\<open>X[df == key].index.tolist()\<close>: the index values of the rows whose key is
  \<open>key\<close>, in row order.\<close>

definition rows_of_month :: "dataframe \<Rightarrow> (int \<times> int) list \<Rightarrow> int \<times> int \<Rightarrow> obj list" where
  "rows_of_month X df key =
     map fst (filter (\<lambda>r. snd r = key) (zip (index_values (index X)) df))"

fun get_locs :: "obj list \<Rightarrow> obj list \<Rightarrow> error + loc list" where
  "get_locs idx [] = Inr []"
| "get_locs idx (elm # elms) =
     (case get_loc idx elm of
        Inl e \<Rightarrow> Inl e
      | Inr l \<Rightarrow>
         (case get_locs idx elms of
            Inl e \<Rightarrow> Inl e
          | Inr ls \<Rightarrow> Inr (l # ls)))"

type_synonym fold = "loc list \<times> loc list"

text \<open>
  A generator is the list of what it yields before it ends, with the error that
  ended it if one did. The loop below is the \<open>for i in range(n_splits)\<close> of the
  source; the assertion before it makes both \<open>unique_year_month[i]\<close> and
  \<open>unique_year_month[i+1]\<close> exist.
\<close>

fun split_loop :: "dataframe \<Rightarrow> (int \<times> int) list \<Rightarrow> (int \<times> int) list \<Rightarrow> nat list
    \<Rightarrow> fold list \<times> error option" where
  "split_loop X df unique_year_month [] = ([], None)"
| "split_loop X df unique_year_month (i # is) =
     (case get_locs (index_values (index X)) (rows_of_month X df (unique_year_month ! i)) of
        Inl e \<Rightarrow> ([], Some e)
      | Inr idx_train \<Rightarrow>
         (case get_locs (index_values (index X))
                 (rows_of_month X df (unique_year_month ! (i + 1))) of
            Inl e \<Rightarrow> ([], Some e)
          | Inr idx_test \<Rightarrow>
              (case split_loop X df unique_year_month is of
                 (folds, r) \<Rightarrow> ((idx_train, idx_test) # folds, r))))"

definition split :: "string \<Rightarrow> dataframe \<Rightarrow> fold list \<times> error option" where
  "split time_col X =
     (case month_keys time_col X of
        Inl e \<Rightarrow> ([], Some e)
      | Inr df \<Rightarrow>
         (let unique_year_month = sort (remdups df) in
          case get_n_splits time_col X of
            Inl e \<Rightarrow> ([], Some e)
          | Inr n_splits \<Rightarrow>
              if int (length unique_year_month) \<noteq> n_splits + 1 then ([], Some AssertionError)
              else split_loop X df unique_year_month [0..<nat n_splits]))"

section \<open>Facts about the helpers\<close>


lemma check_array_Inr_iff:
  "check_array X = Inr X' \<longleftrightarrow>
     X' = X \<and> X \<noteq> [] \<and> (\<forall>r\<in>set X. length r = length (hd X)) \<and> 0 < length (hd X)"
  unfolding check_array_def by (simp only: split: if_split) blast

lemma check_array_bad:
  assumes "X = [] \<or> (\<exists>r\<in>set X. length r \<noteq> length (hd X)) \<or> length (hd X) = 0"
  shows "\<exists>msg. check_array X = Inl (ValueError msg)"
proof (cases "X = []")
  case True
  have "check_array X = Inl (ValueError ''Expected 2D array, got 1D array instead'')"
    unfolding check_array_def using True by (rule if_P)
  then show ?thesis by (rule exI)
next
  case ne: False
  show ?thesis
  proof (cases "\<exists>r\<in>set X. length r \<noteq> length (hd X)")
    case True
    have "check_array X = Inl (ValueError ''inhomogeneous shape'')"
      unfolding check_array_def by (simp only: if_not_P [OF ne] if_P [OF True])
    then show ?thesis by (rule exI)
  next
    case False
    with ne assms have z: "length (hd X) = 0" by blast
    have "check_array X = Inl (ValueError ''Found array with 0 feature(s)'')"
      unfolding check_array_def by (simp only: if_not_P [OF ne] if_not_P [OF False] if_P [OF z])
    then show ?thesis by (rule exI)
  qed
qed

lemma check_array_good:
  assumes "X \<noteq> []" "\<forall>r\<in>set X. length r = length (hd X)" "0 < length (hd X)"
  shows "check_array X = Inr X"
  using assms by (simp only: check_array_Inr_iff) blast

lemma fit_bad_shape:
  assumes "check_array X = Inl e"
  shows "fit self X y = (Inl e, self)"
  using assms by (simp add: fit_def check_X_y_def)

lemma fit_bad_length:
  assumes "check_array X = Inr X" "length X \<noteq> length y"
  shows "fit self X y =
     (Inl (ValueError ''Found input variables with inconsistent numbers of samples''), self)"
  using assms by (simp add: fit_def check_X_y_def)

lemma fit_bad_target:
  assumes "check_array X = Inr X" "length X = length y" "\<not> list_all is_discrete y"
  shows "fit self X y = (Inl (ValueError ''Unknown label type''), self)"
  using assms by (simp add: fit_def check_X_y_def check_classification_targets_def)

lemma fit_good:
  assumes "check_array X = Inr X" "length X = length y" "list_all is_discrete y"
  shows "fit self X y = (Inr (), self\<lparr>X_fitted := Some X, y_fitted := Some y,
                    n_features_in := Some (length (hd X)),
                    classes := Some (np_unique y)\<rparr>)"
  using assms by (simp add: fit_def check_X_y_def check_classification_targets_def)

lemma fit_Inr_imp:
  assumes "fit self X y = (Inr u, self')"
  shows "check_array X = Inr X \<and> length X = length y \<and> list_all is_discrete y \<and>
     self' = self\<lparr>X_fitted := Some X, y_fitted := Some y,
                    n_features_in := Some (length (hd X)),
                    classes := Some (np_unique y)\<rparr>"
proof -
  have shape: "X \<noteq> [] \<and> (\<forall>r\<in>set X. length r = length (hd X)) \<and> 0 < length (hd X)"
  proof (rule ccontr)
    assume "\<not> ?thesis"
    then have "X = [] \<or> (\<exists>r\<in>set X. length r \<noteq> length (hd X)) \<or> length (hd X) = 0"
      by blast
    then obtain msg where "check_array X = Inl (ValueError msg)"
      using check_array_bad by blast
    then have "fit self X y = (Inl (ValueError msg), self)" by (rule fit_bad_shape)
    with assms show False by simp
  qed
  then have ca: "check_array X = Inr X" using check_array_good by blast
  have len: "length X = length y"
  proof (rule ccontr)
    assume "length X \<noteq> length y"
    from fit_bad_length [OF ca this, of self] assms show False by simp
  qed
  have disc: "list_all is_discrete y"
  proof (rule ccontr)
    assume "\<not> list_all is_discrete y"
    from fit_bad_target [OF ca len this, of self] assms show False by simp
  qed
  from fit_good [OF ca len disc, of self] assms
  have "self' = self\<lparr>X_fitted := Some X, y_fitted := Some y,
                    n_features_in := Some (length (hd X)),
                    classes := Some (np_unique y)\<rparr>" by simp
  with ca len disc show ?thesis by blast
qed

text \<open>
  C8. \<open>fit\<close> is atomic on error. When the features and labels are malformed (no
  rows, ragged rows, zero features, row counts that differ) \<open>fit\<close> raises a
  \<open>ValueError\<close> of the shape validation, and when the shapes are right but the
  labels are not a classification target it raises the \<open>ValueError\<close> of the
  target check; in both cases the instance is returned exactly as it was, so
  none of \<open>X_\<close>, \<open>y_\<close>, \<open>n_features_in_\<close>, \<open>classes_\<close> is written.
\<close>

theorem fit_atomic_on_error:
  "(X = [] \<or> (\<exists>r\<in>set X. length r \<noteq> length (hd X)) \<or> length (hd X) = 0
      \<or> length X \<noteq> length y
    \<longrightarrow> (\<exists>msg. msg \<noteq> ''Unknown label type'' \<and> fit self X y = (Inl (ValueError msg), self)))
   \<and> (X \<noteq> [] \<and> (\<forall>r\<in>set X. length r = length (hd X)) \<and> 0 < length (hd X)
      \<and> length X = length y \<and> \<not> list_all is_discrete y
    \<longrightarrow> fit self X y = (Inl (ValueError ''Unknown label type''), self))"
proof (intro conjI impI)
  assume bad: "X = [] \<or> (\<exists>r\<in>set X. length r \<noteq> length (hd X)) \<or> length (hd X) = 0
      \<or> length X \<noteq> length y"
  show "\<exists>msg. msg \<noteq> ''Unknown label type'' \<and> fit self X y = (Inl (ValueError msg), self)"
  proof (cases "X = [] \<or> (\<exists>r\<in>set X. length r \<noteq> length (hd X)) \<or> length (hd X) = 0")
    case True
    then consider "X = []" | "X \<noteq> []" "\<exists>r\<in>set X. length r \<noteq> length (hd X)"
      | "X \<noteq> []" "\<not> (\<exists>r\<in>set X. length r \<noteq> length (hd X))" "length (hd X) = 0"
      by blast
    then show ?thesis
    proof cases
      case 1
      have "check_array X = Inl (ValueError ''Expected 2D array, got 1D array instead'')"
        unfolding check_array_def using 1 by (rule if_P)
      then have "fit self X y
          = (Inl (ValueError ''Expected 2D array, got 1D array instead''), self)"
        by (rule fit_bad_shape)
      then show ?thesis by simp
    next
      case 2
      have "check_array X = Inl (ValueError ''inhomogeneous shape'')"
        unfolding check_array_def by (simp only: if_not_P [OF 2(1)] if_P [OF 2(2)])
      then have "fit self X y = (Inl (ValueError ''inhomogeneous shape''), self)"
        by (rule fit_bad_shape)
      then show ?thesis by simp
    next
      case 3
      have "check_array X = Inl (ValueError ''Found array with 0 feature(s)'')"
        unfolding check_array_def
        by (simp only: if_not_P [OF 3(1)] if_not_P [OF 3(2)] if_P [OF 3(3)])
      then have "fit self X y = (Inl (ValueError ''Found array with 0 feature(s)''), self)"
        by (rule fit_bad_shape)
      then show ?thesis by simp
    qed
  next
    case False
    then have ca: "check_array X = Inr X" by (simp only: check_array_Inr_iff) blast
    from False bad have "length X \<noteq> length y" by blast
    from fit_bad_length [OF ca this, of self] show ?thesis by simp
  qed
next
  assume h: "X \<noteq> [] \<and> (\<forall>r\<in>set X. length r = length (hd X)) \<and> 0 < length (hd X)
      \<and> length X = length y \<and> \<not> list_all is_discrete y"
  then have ca: "check_array X = Inr X" by (simp only: check_array_Inr_iff) blast
  from h fit_bad_target [OF ca, of y self]
  show "fit self X y = (Inl (ValueError ''Unknown label type''), self)" by blast
qed

theorem fit_atomic_on_error_witness:
  "fit (init 3) [[1, 2], [3]] [0, 1] = (Inl (ValueError ''inhomogeneous shape''), init 3)
   \<and> fit (init 3) [[1, 2], [3, 4]] [0, 1 / 2] = (Inl (ValueError ''Unknown label type''), init 3)"
proof -
  have a: "check_array [[1, 2], [3]] = Inl (ValueError ''inhomogeneous shape'')"
    by (simp add: check_array_def)
  from fit_atomic_on_error [of "[[1, 2], [3]]" "[0, 1]" "init 3"]
  obtain msg where m: "fit (init 3) [[1, 2], [3]] [0, 1] = (Inl (ValueError msg), init 3)"
    by auto
  have "fit (init 3) [[1, 2], [3]] [0, 1] = (Inl (ValueError ''inhomogeneous shape''), init 3)"
    using a by (rule fit_bad_shape)
  moreover have "\<not> is_discrete (1 / 2)" by (simp add: is_discrete_def)
  then have "fit (init 3) [[1, 2], [3, 4]] [0, 1 / 2]
      = (Inl (ValueError ''Unknown label type''), init 3)"
    using fit_atomic_on_error [of "[[1, 2], [3, 4]]" "[0, 1 / 2]" "init 3"] by simp
  ultimately show ?thesis by blast
qed

lemma fit_outcome:
  "(\<exists>e. fit self X y = (Inl e, self))
   \<or> fit self X y = (Inr (), self\<lparr>X_fitted := Some X, y_fitted := Some y,
                    n_features_in := Some (length (hd X)),
                    classes := Some (np_unique y)\<rparr>)"
proof (cases "X = [] \<or> (\<exists>r\<in>set X. length r \<noteq> length (hd X)) \<or> length (hd X) = 0")
  case True
  then obtain msg where "check_array X = Inl (ValueError msg)"
    using check_array_bad by blast
  then have "fit self X y = (Inl (ValueError msg), self)" by (rule fit_bad_shape)
  then show ?thesis by blast
next
  case False
  then have ca: "check_array X = Inr X" using check_array_good by blast
  show ?thesis
  proof (cases "length X = length y")
    case False
    from fit_bad_length [OF ca this, of self] show ?thesis by blast
  next
    case len: True
    show ?thesis
    proof (cases "list_all is_discrete y")
      case False
      from fit_bad_target [OF ca len this, of self] show ?thesis by blast
    next
      case True
      from fit_good [OF ca len this, of self] show ?thesis by blast
    qed
  qed
qed

lemma fit_failure_keeps_instance:
  assumes "fst (fit self X y) \<noteq> Inr ()"
  shows "snd (fit self X y) = self"
  using fit_outcome [of self X y] assms by (elim disjE exE) simp_all

lemma check_is_fitted_init: "\<not> check_is_fitted (init k)"
  by (simp add: check_is_fitted_def init_def)

lemma predict_not_fitted:
  "\<not> check_is_fitted self \<Longrightarrow> predict argsort self X = Inl NotFittedError"
  by (simp add: predict_def)

lemma predict_bad_query:
  assumes "check_is_fitted self" "check_array X = Inl e"
  shows "predict argsort self X = Inl e"
  using assms by (simp add: predict_def)

lemma pairwise_distances_good:
  assumes "check_array X = Inr X" "check_array Y = Inr Y"
  shows "pairwise_distances X Y =
     (if length (hd X) \<noteq> length (hd Y)
      then Inl (ValueError ''Incompatible dimension for X and Y matrices'')
      else Inr (map (\<lambda>x. map (euclidean x) Y) X))"
  using assms by (simp add: pairwise_distances_def)

lemma predict_fitted:
  assumes "X_fitted self = Some Xt" "y_fitted self = Some yt" "check_array X = Inr X"
  shows "predict argsort self X =
     (case pairwise_distances X Xt of
        Inl e \<Rightarrow> Inl e
      | Inr D \<Rightarrow> label_rows yt (closest argsort (n_neighbors self) D))"
  using assms by (simp add: predict_def check_is_fitted_def split: sum.splits)

text \<open>
  C6. \<open>predict\<close> on an instance that was never fitted (fresh from the
  constructor, or after a \<open>fit\<close> that failed) fails with the not-fitted error.
  \<open>predict\<close> after a successful \<open>fit\<close>, on a query matrix whose column count
  differs from the recorded feature dimensionality, fails with a \<open>ValueError\<close>
  of the shape validation. In both cases the outcome is the error alone, with
  no per-row result.
\<close>

theorem predict_not_fitted_or_wrong_width:
  "predict argsort (init k) X = Inl NotFittedError
   \<and> (fst (fit (init k) Xb yb) \<noteq> Inr ()
        \<longrightarrow> predict argsort (snd (fit (init k) Xb yb)) X = Inl NotFittedError)
   \<and> (fit self Xt yt = (Inr (), self') \<and> X \<noteq> [] \<and> (\<forall>r\<in>set X. length r = w)
        \<and> n_features_in self' \<noteq> Some w
        \<longrightarrow> (\<exists>msg. predict argsort self' X = Inl (ValueError msg)))"
proof (intro conjI impI)
  show "predict argsort (init k) X = Inl NotFittedError"
    using check_is_fitted_init by (rule predict_not_fitted)
next
  assume "fst (fit (init k) Xb yb) \<noteq> Inr ()"
  then have "snd (fit (init k) Xb yb) = init k" by (rule fit_failure_keeps_instance)
  then show "predict argsort (snd (fit (init k) Xb yb)) X = Inl NotFittedError"
    using check_is_fitted_init [of k] by (simp add: predict_not_fitted)
next
  assume h: "fit self Xt yt = (Inr (), self') \<and> X \<noteq> [] \<and> (\<forall>r\<in>set X. length r = w)
        \<and> n_features_in self' \<noteq> Some w"
  then have f: "fit self Xt yt = (Inr (), self')" by blast
  note fi = fit_Inr_imp [OF f]
  from fi have cat: "check_array Xt = Inr Xt" by blast
  from fi have xf: "X_fitted self' = Some Xt" and yf: "y_fitted self' = Some yt"
    and nf: "n_features_in self' = Some (length (hd Xt))" by simp_all
  from xf have fitted: "check_is_fitted self'" by (simp add: check_is_fitted_def)
  from h have ne: "X \<noteq> []" and rect: "\<forall>r\<in>set X. length r = w" by blast+
  from ne rect have hw: "length (hd X) = w" by (cases X) simp_all
  from h nf have wd: "w \<noteq> length (hd Xt)" by auto
  show "\<exists>msg. predict argsort self' X = Inl (ValueError msg)"
  proof (cases "w = 0")
    case True
    with hw obtain msg where "check_array X = Inl (ValueError msg)"
      using check_array_bad [of X] by blast
    with fitted have "predict argsort self' X = Inl (ValueError msg)"
      by (simp add: predict_bad_query)
    then show ?thesis by blast
  next
    case False
    with ne rect hw have cax: "check_array X = Inr X"
      using check_array_good [of X] by simp
    have "pairwise_distances X Xt
        = Inl (ValueError ''Incompatible dimension for X and Y matrices'')"
      using pairwise_distances_good [OF cax cat] hw wd by simp
    then have "predict argsort self' X
        = Inl (ValueError ''Incompatible dimension for X and Y matrices'')"
      using predict_fitted [OF xf yf cax, of argsort] by simp
    then show ?thesis by blast
  qed
qed

theorem predict_not_fitted_or_wrong_width_witness:
  "fst (fit (init 1) [[1, 2], [3]] [0, 1]) \<noteq> Inr ()
   \<and> predict stable_argsort (snd (fit (init 1) [[1, 2], [3]] [0, 1])) [[0, 0, 0]]
       = Inl NotFittedError
   \<and> (\<exists>self'. fit (init 1) [[1, 2], [3, 4]] [0, 1] = (Inr (), self')
        \<and> n_features_in self' \<noteq> Some 3
        \<and> (\<exists>msg. predict stable_argsort self' [[0, 0, 0]] = Inl (ValueError msg)))"
proof -
  have a: "check_array [[1, 2], [3]] = Inl (ValueError ''inhomogeneous shape'')"
    by (simp add: check_array_def)
  have fa: "fst (fit (init 1) [[1, 2], [3]] [0, 1]) \<noteq> Inr ()"
    using fit_bad_shape [OF a, of "init 1" "[0, 1]"] by simp
  have b: "check_array [[1, 2], [3, 4]] = Inr [[1, 2], [3, 4]]"
    by (simp add: check_array_def)
  have d: "list_all is_discrete [0, 1]" by (simp add: is_discrete_def)
  define s where "s = (init 1)\<lparr>X_fitted := Some [[1, 2], [3, 4]], y_fitted := Some [0, 1],
                    n_features_in := Some (length (hd [[1 :: real, 2], [3, 4]])),
                    classes := Some (np_unique [0, 1])\<rparr>"
  have fs: "fit (init 1) [[1, 2], [3, 4]] [0, 1] = (Inr (), s)"
    unfolding s_def by (rule fit_good [OF b _ d]) simp
  have ns: "n_features_in s \<noteq> Some 3" by (simp add: s_def)
  note t = predict_not_fitted_or_wrong_width
      [of stable_argsort 1 "[[0, 0, 0]]" "[[1, 2], [3]]" "[0, 1]" "init 1" "[[1, 2], [3, 4]]"
          "[0, 1]" s 3]
  from t fa have p1:
    "predict stable_argsort (snd (fit (init 1) [[1, 2], [3]] [0, 1])) [[0, 0, 0]]
       = Inl NotFittedError" by blast
  from t fs ns have "\<exists>msg. predict stable_argsort s [[0, 0, 0]] = Inl (ValueError msg)"
    by simp
  with fa p1 fs ns show ?thesis by blast
qed

lemma counter_add_keys:
  "map fst (counter_add x cs) = (if x \<in> fst ` set cs then map fst cs else map fst cs @ [x])"
  by (induction cs) (force split: prod.splits)+

lemma counter_add_lookup:
  "map_of (counter_add x cs) k =
     (if k = x then Some (case map_of cs x of None \<Rightarrow> 1 | Some c \<Rightarrow> Suc c) else map_of cs k)"
  by (induction cs) (auto split: prod.splits)

lemma Counter_snoc: "Counter (ys @ [x]) = counter_add x (Counter ys)"
  by (simp add: Counter_def)

lemma Counter_key_set: "fst ` set (Counter ys) = set ys"
proof (induction ys rule: rev_induct)
  case Nil
  show ?case by (simp add: Counter_def)
next
  case (snoc x ys)
  have "fst ` set (Counter (ys @ [x])) = set (map fst (counter_add x (Counter ys)))"
    by (simp only: Counter_snoc set_map)
  also have "\<dots> = insert x (set ys)"
    using snoc by (auto simp: counter_add_keys)
  finally show ?case by simp
qed

lemma Counter_keys_snoc:
  "map fst (Counter (ys @ [x])) =
     (if x \<in> set ys then map fst (Counter ys) else map fst (Counter ys) @ [x])"
  by (simp add: Counter_snoc counter_add_keys Counter_key_set)

lemma Counter_keys_distinct: "distinct (map fst (Counter ys))"
proof (induction ys rule: rev_induct)
  case Nil
  show ?case by (simp add: Counter_def)
next
  case (snoc x ys)
  then show ?case
    using Counter_key_set [of ys] by (auto simp: Counter_keys_snoc)
qed

lemma Counter_lookup:
  "map_of (Counter ys) k = (if k \<in> set ys then Some (count_list ys k) else None)"
proof (induction ys arbitrary: k rule: rev_induct)
  case Nil
  show ?case by (simp add: Counter_def)
next
  case (snoc x ys)
  show ?case
    by (simp add: Counter_snoc counter_add_lookup snoc count_list_0_iff)
qed

lemma Counter_entry:
  assumes "(k, c) \<in> set (Counter ys)"
  shows "k \<in> set ys \<and> c = count_list ys k"
proof -
  from assms have "map_of (Counter ys) k = Some c"
    using Counter_keys_distinct [of ys] by simp
  then show ?thesis by (simp add: Counter_lookup split: if_splits)
qed

lemma Counter_first_seen:
  assumes "i < length (Counter ys)"
  shows "set (takeWhile (\<lambda>x. x \<noteq> fst (Counter ys ! i)) ys)
         = set (take i (map fst (Counter ys)))"
  using assms
proof (induction ys arbitrary: i rule: rev_induct)
  case Nil
  then show ?case by (simp add: Counter_def)
next
  case (snoc x ys)
  let ?ks = "map fst (Counter ys)"
  have len: "length ?ks = length (Counter ys)" by simp
  show ?case
  proof (cases "x \<in> set ys")
    case True
    then have ks: "map fst (Counter (ys @ [x])) = ?ks" by (simp add: Counter_keys_snoc)
    then have "length (Counter (ys @ [x])) = length (Counter ys)"
      by (metis length_map)
    with snoc.prems have i: "i < length (Counter ys)" by simp
    have k: "fst (Counter (ys @ [x]) ! i) = fst (Counter ys ! i)"
      using ks i snoc.prems by (metis nth_map)
    have "fst (Counter ys ! i) \<in> set ys"
      using Counter_key_set [of ys] i by (metis image_eqI nth_mem)
    then have "takeWhile (\<lambda>y. y \<noteq> fst (Counter ys ! i)) (ys @ [x])
             = takeWhile (\<lambda>y. y \<noteq> fst (Counter ys ! i)) ys"
      by (intro takeWhile_append1 [where x = "fst (Counter ys ! i)"]) simp_all
    with snoc.IH [OF i] k ks show ?thesis by simp
  next
    case False
    then have ks: "map fst (Counter (ys @ [x])) = ?ks @ [x]" by (simp add: Counter_keys_snoc)
    then have l: "length (Counter (ys @ [x])) = Suc (length (Counter ys))"
      by (metis length_map length_append_singleton)
    show ?thesis
    proof (cases "i < length (Counter ys)")
      case True
      have "fst (Counter (ys @ [x]) ! i) = (?ks @ [x]) ! i"
        using ks snoc.prems by (metis nth_map)
      then have k: "fst (Counter (ys @ [x]) ! i) = fst (Counter ys ! i)"
        using True by (simp add: nth_append)
      have "fst (Counter ys ! i) \<in> set ys"
        using Counter_key_set [of ys] True by (metis image_eqI nth_mem)
      then have "takeWhile (\<lambda>y. y \<noteq> fst (Counter ys ! i)) (ys @ [x])
             = takeWhile (\<lambda>y. y \<noteq> fst (Counter ys ! i)) ys"
        by (intro takeWhile_append1 [where x = "fst (Counter ys ! i)"]) simp_all
      with snoc.IH [OF True] k ks True show ?thesis by simp
    next
      case False
      with l snoc.prems have i: "i = length (Counter ys)" by simp
      have "fst (Counter (ys @ [x]) ! i) = (?ks @ [x]) ! i"
        using ks snoc.prems by (metis nth_map)
      then have k: "fst (Counter (ys @ [x]) ! i) = x"
        using i nth_append_length [of ?ks x] by simp
      have "takeWhile (\<lambda>y. y \<noteq> x) (ys @ [x]) = ys @ takeWhile (\<lambda>y. y \<noteq> x) [x]"
        using \<open>x \<notin> set ys\<close> by (intro takeWhile_append2) auto
      then have "takeWhile (\<lambda>y. y \<noteq> x) (ys @ [x]) = ys" by simp
      moreover have "set ?ks = set ys" using Counter_key_set [of ys] by simp
      ultimately show ?thesis using k ks i by simp
    qed
  qed
qed

lemma max_by_count_first_max:
  "(max_by_count best cs = best \<and> (\<forall>c\<in>set cs. snd c \<le> snd best))
   \<or> (\<exists>pre post. cs = pre @ max_by_count best cs # post
         \<and> snd best < snd (max_by_count best cs)
         \<and> (\<forall>c\<in>set pre. snd c < snd (max_by_count best cs))
         \<and> (\<forall>c\<in>set post. snd c \<le> snd (max_by_count best cs)))"
proof (induction cs arbitrary: best)
  case Nil
  show ?case by simp
next
  case (Cons kc cs)
  show ?case
  proof (cases "snd best < snd kc")
    case True
    then have r: "max_by_count best (kc # cs) = max_by_count kc cs" by simp
    from Cons.IH [of kc] show ?thesis
    proof (elim disjE conjE exE)
      assume a: "max_by_count kc cs = kc" "\<forall>c\<in>set cs. snd c \<le> snd kc"
      have "kc # cs = [] @ max_by_count best (kc # cs) # cs" using r a by simp
      moreover have "snd best < snd (max_by_count best (kc # cs))" using r a True by simp
      moreover have "\<forall>c\<in>set cs. snd c \<le> snd (max_by_count best (kc # cs))"
        using r a by simp
      ultimately show ?thesis by (metis empty_iff list.set(1))
    next
      fix pre post
      assume a: "cs = pre @ max_by_count kc cs # post" "snd kc < snd (max_by_count kc cs)"
        "\<forall>c\<in>set pre. snd c < snd (max_by_count kc cs)"
        "\<forall>c\<in>set post. snd c \<le> snd (max_by_count kc cs)"
      have "kc # cs = (kc # pre) @ max_by_count best (kc # cs) # post"
        using r a(1) by simp
      moreover have "snd best < snd (max_by_count best (kc # cs))" using r a(2) True by simp
      moreover have "\<forall>c\<in>set (kc # pre). snd c < snd (max_by_count best (kc # cs))"
        using r a(2,3) by simp
      moreover have "\<forall>c\<in>set post. snd c \<le> snd (max_by_count best (kc # cs))"
        using r a(4) by simp
      ultimately show ?thesis by blast
    qed
  next
    case False
    then have r: "max_by_count best (kc # cs) = max_by_count best cs" by simp
    from Cons.IH [of best] show ?thesis
    proof (elim disjE conjE exE)
      assume a: "max_by_count best cs = best" "\<forall>c\<in>set cs. snd c \<le> snd best"
      then show ?thesis using r False by simp
    next
      fix pre post
      assume a: "cs = pre @ max_by_count best cs # post" "snd best < snd (max_by_count best cs)"
        "\<forall>c\<in>set pre. snd c < snd (max_by_count best cs)"
        "\<forall>c\<in>set post. snd c \<le> snd (max_by_count best cs)"
      have "kc # cs = (kc # pre) @ max_by_count best (kc # cs) # post"
        using r a(1) by simp
      moreover have "snd best < snd (max_by_count best (kc # cs))" using r a(2) by simp
      moreover have "\<forall>c\<in>set (kc # pre). snd c < snd (max_by_count best (kc # cs))"
        using r a(2,3) False by simp
      moreover have "\<forall>c\<in>set post. snd c \<le> snd (max_by_count best (kc # cs))"
        using r a(4) by simp
      ultimately show ?thesis by blast
    qed
  qed
qed

lemma max_by_count_split:
  "\<exists>pre post. best # cs = pre @ max_by_count best cs # post
      \<and> (\<forall>c\<in>set pre. snd c < snd (max_by_count best cs))
      \<and> (\<forall>c\<in>set post. snd c \<le> snd (max_by_count best cs))"
  using max_by_count_first_max [of best cs]
proof (elim disjE conjE exE)
  assume a: "max_by_count best cs = best" "\<forall>c\<in>set cs. snd c \<le> snd best"
  have "best # cs = [] @ max_by_count best cs # cs" using a by simp
  moreover have "\<forall>c\<in>set cs. snd c \<le> snd (max_by_count best cs)" using a by simp
  ultimately show ?thesis by (metis empty_iff list.set(1))
next
  fix pre post
  assume a: "cs = pre @ max_by_count best cs # post" "snd best < snd (max_by_count best cs)"
    "\<forall>c\<in>set pre. snd c < snd (max_by_count best cs)"
    "\<forall>c\<in>set post. snd c \<le> snd (max_by_count best cs)"
  have "best # cs = (best # pre) @ max_by_count best cs # post" using a(1) by simp
  moreover have "\<forall>c\<in>set (best # pre). snd c < snd (max_by_count best cs)"
    using a(2,3) by simp
  ultimately show ?thesis using a(4) by blast
qed

lemma most_common_label_empty: "most_common_label [] = None"
  by (simp add: most_common_label_def most_common_1_def Counter_def)

lemma most_common_label_first_encountered:
  assumes "ls \<noteq> []"
  shows "\<exists>l. most_common_label ls = Some l \<and> l \<in> set ls
     \<and> (\<forall>l'\<in>set ls. count_list ls l' \<le> count_list ls l
           \<and> (count_list ls l' = count_list ls l
                \<longrightarrow> l' \<notin> set (takeWhile (\<lambda>x. x \<noteq> l) ls)))"
proof -
  from assms have "set ls \<noteq> {}" by simp
  then have "Counter ls \<noteq> []" using Counter_key_set [of ls] by auto
  then obtain kc cs where C: "Counter ls = kc # cs" by (cases "Counter ls") auto
  define r where "r = max_by_count kc cs"
  have res: "most_common_label ls = Some (fst r)"
    by (simp add: most_common_label_def most_common_1_def C r_def)
  from max_by_count_split [of kc cs] obtain pre post
    where sp: "Counter ls = pre @ r # post"
      and lt: "\<forall>c\<in>set pre. snd c < snd r"
      and le: "\<forall>c\<in>set post. snd c \<le> snd r"
    unfolding r_def C by blast
  have rin: "(fst r, snd r) \<in> set (Counter ls)" using sp by simp
  from Counter_entry [OF rin] have lin: "fst r \<in> set ls"
    and cr: "snd r = count_list ls (fst r)" by simp_all
  have i: "length pre < length (Counter ls)" using sp by simp
  have ri: "Counter ls ! length pre = r" using sp by simp
  have seen: "set (takeWhile (\<lambda>x. x \<noteq> fst r) ls) = fst ` set pre"
    using Counter_first_seen [OF i] ri sp by simp
  have "count_list ls l' \<le> count_list ls (fst r)
        \<and> (count_list ls l' = count_list ls (fst r)
             \<longrightarrow> l' \<notin> set (takeWhile (\<lambda>x. x \<noteq> fst r) ls))"
    if l': "l' \<in> set ls" for l'
  proof -
    from l' obtain c where e: "(l', c) \<in> set (Counter ls)"
      using Counter_key_set [of ls] by force
    from Counter_entry [OF e] have c: "c = count_list ls l'" by simp
    from e sp consider "(l', c) \<in> set pre" | "(l', c) = r" | "(l', c) \<in> set post" by auto
    then show ?thesis
    proof cases
      case 1
      have "distinct (map fst (pre @ r # post))" using Counter_keys_distinct [of ls] sp by simp
      with 1 lt c cr show ?thesis by (auto simp: seen)
    next
      case 2
      then have "l' = fst r" by auto
      then show ?thesis using set_takeWhileD by fastforce
    next
      case 3
      have d: "distinct (map fst (pre @ r # post))"
        using Counter_keys_distinct [of ls] sp by simp
      have "l' \<notin> fst ` set pre"
      proof
        assume "l' \<in> fst ` set pre"
        moreover have "l' \<in> fst ` set post" using 3 by force
        ultimately show False using d by auto
      qed
      with 3 le c cr show ?thesis by (auto simp: seen)
    qed
  qed
  with res lin show ?thesis by blast
qed

lemma label_rows_Inr:
  assumes "label_rows yt pss = Inr preds"
  shows "length preds = length pss
     \<and> (\<forall>i<length pss. list_all (\<lambda>p. p < length yt) (pss ! i)
            \<and> preds ! i = most_common_label (map (\<lambda>p. yt ! p) (pss ! i)))"
  using assms
proof (induction pss arbitrary: preds)
  case Nil
  then show ?case by simp
next
  case (Cons ps pss)
  from Cons.prems obtain ls rest where
    tp: "take_positions yt ps = Inr ls" and lr: "label_rows yt pss = Inr rest"
    and pr: "preds = most_common_label ls # rest"
    by (auto split: sum.splits)
  from tp have ok: "list_all (\<lambda>p. p < length yt) ps" and ls: "ls = map (\<lambda>p. yt ! p) ps"
    by (auto simp: take_positions_def split: if_splits)
  from Cons.IH [OF lr] have ih: "length rest = length pss"
    "\<forall>i<length pss. list_all (\<lambda>p. p < length yt) (pss ! i)
            \<and> rest ! i = most_common_label (map (\<lambda>p. yt ! p) (pss ! i))" by blast+
  show ?case
  proof (intro conjI allI impI)
    show "length preds = length (ps # pss)" using pr ih(1) by simp
  next
    fix i assume "i < length (ps # pss)"
    then show "list_all (\<lambda>p. p < length yt) ((ps # pss) ! i)"
      using ok ih(2) by (cases i) simp_all
  next
    fix i assume "i < length (ps # pss)"
    then show "preds ! i = most_common_label (map (\<lambda>p. yt ! p) ((ps # pss) ! i))"
      using pr ls ih(2) by (cases i) simp_all
  qed
qed

lemma check_array_cases:
  obtains (bad) msg where "check_array X = Inl (ValueError msg)"
    | (good) "check_array X = Inr X"
proof (cases "X = [] \<or> (\<exists>r\<in>set X. length r \<noteq> length (hd X)) \<or> length (hd X) = 0")
  case True
  then obtain msg where "check_array X = Inl (ValueError msg)"
    using check_array_bad by blast
  then show ?thesis by (rule bad)
next
  case False
  then have "check_array X = Inr X" using check_array_good by blast
  then show ?thesis by (rule good)
qed

lemma predict_no_X:
  assumes "check_is_fitted self" "check_array X = Inr X" "X_fitted self = None"
  shows "predict argsort self X = Inl AttributeError"
  using assms by (simp add: predict_def)

lemma predict_no_y:
  assumes "check_is_fitted self" "check_array X = Inr X" "X_fitted self = Some Xt"
    "y_fitted self = None"
  shows "\<exists>e. predict argsort self X = Inl e"
  using assms by (cases "pairwise_distances X Xt") (simp_all add: predict_def)

lemma pairwise_distances_bad:
  assumes "check_array X = Inr X" "check_array Y = Inl e"
  shows "pairwise_distances X Y = Inl e"
  using assms by (simp add: pairwise_distances_def)

lemma predict_Inr:
  assumes "predict argsort self X = Inr preds"
  shows "\<exists>Xt yt. X_fitted self = Some Xt \<and> y_fitted self = Some yt
     \<and> check_array X = Inr X \<and> check_array Xt = Inr Xt
     \<and> length (hd X) = length (hd Xt)
     \<and> label_rows yt (closest argsort (n_neighbors self)
           (map (\<lambda>x. map (euclidean x) Xt) X)) = Inr preds"
proof -
  have fitted: "check_is_fitted self"
  proof (rule ccontr)
    assume "\<not> check_is_fitted self"
    from predict_not_fitted [OF this, of argsort X] assms show False by simp
  qed
  have cx: "check_array X = Inr X"
  proof (cases X rule: check_array_cases)
    case (bad msg)
    from predict_bad_query [OF fitted bad, of argsort] assms show ?thesis by simp
  next
    case good
    then show ?thesis .
  qed
  obtain Xt where xf: "X_fitted self = Some Xt"
  proof (cases "X_fitted self")
    case None
    from predict_no_X [OF fitted cx None, of argsort] assms show ?thesis by simp
  next
    case (Some Xt)
    then show ?thesis by (rule that)
  qed
  obtain yt where yf: "y_fitted self = Some yt"
  proof (cases "y_fitted self")
    case None
    from predict_no_y [OF fitted cx xf None, of argsort] assms show ?thesis by auto
  next
    case (Some yt)
    then show ?thesis by (rule that)
  qed
  note pf = predict_fitted [OF xf yf cx, of argsort]
  have ct: "check_array Xt = Inr Xt"
  proof (cases Xt rule: check_array_cases)
    case (bad msg)
    from pairwise_distances_bad [OF cx bad] pf assms show ?thesis by simp
  next
    case good
    then show ?thesis .
  qed
  note pg = pairwise_distances_good [OF cx ct]
  have w: "length (hd X) = length (hd Xt)"
  proof (rule ccontr)
    assume "length (hd X) \<noteq> length (hd Xt)"
    with pg pf assms show False by simp
  qed
  with pg have "pairwise_distances X Xt = Inr (map (\<lambda>x. map (euclidean x) Xt) X)" by simp
  with pf assms have "label_rows yt (closest argsort (n_neighbors self)
           (map (\<lambda>x. map (euclidean x) Xt) X)) = Inr preds" by simp
  with xf yf cx ct w show ?thesis by blast
qed

lemma predict_row:
  assumes "predict argsort self X = Inr preds" and "i < length X"
    and "X_fitted self = Some Xt" and "y_fitted self = Some yt"
  shows "length preds = length X
     \<and> list_all (\<lambda>p. p < length yt)
          (slice_to (n_neighbors self) (argsort (map (euclidean (X ! i)) Xt)))
     \<and> preds ! i = most_common_label (map (\<lambda>p. yt ! p)
          (slice_to (n_neighbors self) (argsort (map (euclidean (X ! i)) Xt))))"
proof -
  from predict_Inr [OF assms(1)] assms(3,4)
  have lr: "label_rows yt (closest argsort (n_neighbors self)
           (map (\<lambda>x. map (euclidean x) Xt) X)) = Inr preds" by auto
  let ?pss = "closest argsort (n_neighbors self) (map (\<lambda>x. map (euclidean x) Xt) X)"
  have len: "length ?pss = length X" by (simp add: closest_def)
  have nth: "?pss ! i = slice_to (n_neighbors self) (argsort (map (euclidean (X ! i)) Xt))"
    using assms(2) by (simp add: closest_def)
  from label_rows_Inr [OF lr] len nth assms(2) show ?thesis by auto
qed

text \<open>
  C4. In \<open>predict\<close>, the label returned for a query row is
  \<open>most_common_label\<close> of the labels of the selected training rows, taken in
  the order of the ranking. When that list is not empty the result is a label
  of highest frequency in it, and no label of the same frequency occurs in the
  list before the first occurrence of the returned one: among tied labels the
  first one counted wins. The result is a function of the inputs alone.
\<close>

theorem predict_label_tie_first_encountered:
  assumes "predict argsort self X = Inr preds" and "i < length X"
  shows "\<exists>Xt yt ls. X_fitted self = Some Xt \<and> y_fitted self = Some yt
     \<and> ls = map (\<lambda>p. yt ! p)
              (slice_to (n_neighbors self) (argsort (map (euclidean (X ! i)) Xt)))
     \<and> preds ! i = most_common_label ls
     \<and> (ls \<noteq> [] \<longrightarrow>
          (\<exists>l. preds ! i = Some l \<and> l \<in> set ls
             \<and> (\<forall>l'\<in>set ls. count_list ls l' \<le> count_list ls l
                   \<and> (count_list ls l' = count_list ls l
                        \<longrightarrow> l' \<notin> set (takeWhile (\<lambda>x. x \<noteq> l) ls)))))"
proof -
  from predict_Inr [OF assms(1)] obtain Xt yt
    where xf: "X_fitted self = Some Xt" and yf: "y_fitted self = Some yt" by blast
  define ls where "ls = map (\<lambda>p. yt ! p)
              (slice_to (n_neighbors self) (argsort (map (euclidean (X ! i)) Xt)))"
  from predict_row [OF assms xf yf] have p: "preds ! i = most_common_label ls"
    by (simp add: ls_def)
  have "\<exists>l. preds ! i = Some l \<and> l \<in> set ls
             \<and> (\<forall>l'\<in>set ls. count_list ls l' \<le> count_list ls l
                   \<and> (count_list ls l' = count_list ls l
                        \<longrightarrow> l' \<notin> set (takeWhile (\<lambda>x. x \<noteq> l) ls)))"
    if "ls \<noteq> []"
    using most_common_label_first_encountered [OF that] p by simp
  with xf yf p ls_def show ?thesis by blast
qed

theorem predict_label_tie_first_encountered_witness:
  "predict stable_argsort
     \<lparr>n_neighbors = 2, X_fitted = Some [[0], [1], [3]], y_fitted = Some [5, 7, 7],
      n_features_in = Some 1, classes = Some [5, 7]\<rparr> [[0]] = Inr [Some 5]
   \<and> (\<exists>l. [Some 5] ! 0 = Some l \<and> l \<in> set [5, 7 :: real]
         \<and> (\<forall>l'\<in>set [5, 7 :: real]. count_list [5, 7] l' \<le> count_list [5, 7] l
               \<and> (count_list [5, 7] l' = count_list [5, 7] l
                    \<longrightarrow> l' \<notin> set (takeWhile (\<lambda>x. x \<noteq> l) [5, 7]))))"
proof -
  define s where "s = \<lparr>n_neighbors = 2, X_fitted = Some [[0], [1], [3]],
      y_fitted = Some [5, 7, 7], n_features_in = Some (1 :: nat), classes = Some [5, 7]\<rparr>"
  have ca: "check_array [[0]] = Inr [[0]]" "check_array [[0], [1], [3]] = Inr [[0], [1], [3]]"
    by (simp_all add: check_array_def)
  have eu: "euclidean [0] [0] = 0" "euclidean [0] [1] = 1" "euclidean [0] [3] = 3"
    by (simp_all add: euclidean_def)
  have so: "stable_argsort [0, 1, 3] = [0, 1, 2]"
    by (simp add: stable_argsort_def)
  have mc: "most_common_label [5, 7 :: real] = Some 5"
    by (simp add: most_common_label_def most_common_1_def Counter_def)
  have sl: "slice_to (n_neighbors s) (stable_argsort (map (euclidean ([[0]] ! 0)) [[0], [1], [3]]))
      = [0, 1]"
    by (simp add: s_def slice_to_def eu so)
  have p: "predict stable_argsort s [[0]] = Inr [Some 5]"
    by (simp add: predict_def check_is_fitted_def s_def ca pairwise_distances_def closest_def
        slice_to_def eu so take_positions_def mc)
  have i: "0 < length [[0 :: real]]" by simp
  from predict_label_tie_first_encountered [OF p i] obtain Xt yt ls
    where xf: "X_fitted s = Some Xt" and yf: "y_fitted s = Some yt"
      and ls: "ls = map (\<lambda>p. yt ! p)
              (slice_to (n_neighbors s) (stable_argsort (map (euclidean ([[0]] ! 0)) Xt)))"
      and r: "ls \<noteq> [] \<longrightarrow>
          (\<exists>l. [Some 5] ! 0 = Some l \<and> l \<in> set ls
             \<and> (\<forall>l'\<in>set ls. count_list ls l' \<le> count_list ls l
                   \<and> (count_list ls l' = count_list ls l
                        \<longrightarrow> l' \<notin> set (takeWhile (\<lambda>x. x \<noteq> l) ls))))"
    by blast
  from xf have Xt: "Xt = [[0], [1], [3]]" by (simp add: s_def)
  from yf have yt: "yt = [5, 7, 7]" by (simp add: s_def)
  from ls sl have "ls = [5, 7]" unfolding Xt yt by simp
  with r have "\<exists>l. [Some 5] ! 0 = Some l \<and> l \<in> set [5, 7 :: real]
         \<and> (\<forall>l'\<in>set [5, 7 :: real]. count_list [5, 7] l' \<le> count_list [5, 7] l
               \<and> (count_list [5, 7] l' = count_list [5, 7] l
                    \<longrightarrow> l' \<notin> set (takeWhile (\<lambda>x. x \<noteq> l) [5, 7])))"
    by simp
  with p show ?thesis unfolding s_def by blast
qed

lemma year_months_Inr:
  assumes "year_months vs = Inr ks"
  shows "length ks = length vs \<and> list_all is_timestamp vs"
  using assms
proof (induction vs arbitrary: ks)
  case Nil
  then show ?case by simp
next
  case (Cons v vs)
  from Cons.prems obtain k ks' where k: "year_month v = Inr k"
    and r: "year_months vs = Inr ks'" and e: "ks = k # ks'"
    by (auto split: sum.splits)
  from k have "is_timestamp v" by (cases v) simp_all
  with Cons.IH [OF r] e show ?case by simp
qed

lemma year_months_bad:
  assumes "\<not> list_all is_timestamp vs"
  shows "year_months vs = Inl AttributeError"
  using assms
proof (induction vs)
  case Nil
  then show ?case by simp
next
  case (Cons v vs)
  show ?case
  proof (cases v)
    case (Timestamp y m t)
    with Cons show ?thesis by (simp split: sum.splits)
  next
    case (Text s)
    then show ?thesis by simp
  next
    case (Number n)
    then show ?thesis by simp
  qed
qed

lemma year_months_good:
  assumes "list_all is_timestamp vs"
  shows "\<exists>ks. year_months vs = Inr ks"
  using assms
proof (induction vs)
  case Nil
  show ?case by simp
next
  case (Cons v vs)
  then obtain ks where "year_months vs = Inr ks" by auto
  moreover from Cons.prems obtain y m t where "v = Timestamp y m t" by (cases v) simp_all
  ultimately show ?case by simp
qed

lemma month_keys_imp_get_n_splits:
  assumes "month_keys time_col X = Inr df"
  shows "get_n_splits time_col X = Inr (int (length (remdups df)) - 1)"
proof (cases "time_col = ''index''")
  case True
  with assms have "year_months (index_values (index X)) = Inr df"
    by (simp add: month_keys_def split: if_splits)
  with True show ?thesis by (simp add: get_n_splits_def)
next
  case False
  with assms obtain s where g: "getitem X time_col = Inr (Series s)"
    and y: "year_months (series_values s) = Inr df"
    by (auto simp: month_keys_def split: sum.splits selection.splits if_splits)
  with False show ?thesis by (simp add: get_n_splits_def)
qed

lemma split_rejected:
  assumes "month_keys time_col X = Inl e"
  shows "split time_col X = ([], Some e)"
  using assms by (simp add: split_def)

lemma split_accepted:
  assumes "month_keys time_col X = Inr df"
  shows "split time_col X = split_loop X df (sort (remdups df)) [0..<length (remdups df) - 1]"
proof -
  have "nat (int (length (remdups df)) - 1) = length (remdups df) - 1" by simp
  then show ?thesis
    using assms month_keys_imp_get_n_splits [OF assms]
    by (simp add: split_def Let_def del: length_remdups_card_conv)
qed

lemma singleton_list:
  assumes "distinct hs" "set hs = {p}"
  shows "hs = [p]"
proof (cases hs)
  case Nil
  with assms(2) show ?thesis by simp
next
  case (Cons h t)
  from assms(2) Cons have h: "h = p" by auto
  have "t = []"
  proof (cases t)
    case Nil
    then show ?thesis .
  next
    case (Cons a t')
    with assms(2) \<open>hs = h # t\<close> have "a = p" by auto
    with assms(1) \<open>hs = h # t\<close> Cons h show ?thesis by simp
  qed
  with Cons h show ?thesis by simp
qed

lemma hits_distinct:
  assumes "distinct idx" "p < length idx"
  shows "filter (\<lambda>q. idx ! q = idx ! p) [0..<length idx] = [p]"
proof (rule singleton_list)
  show "distinct (filter (\<lambda>q. idx ! q = idx ! p) [0..<length idx])" by simp
next
  have "q = p" if "q < length idx" "idx ! q = idx ! p" for q
    using that assms nth_eq_iff_index_eq [of idx q p] by blast
  then show "set (filter (\<lambda>q. idx ! q = idx ! p) [0..<length idx]) = {p}"
    using assms(2) by auto
qed

lemma get_loc_distinct:
  assumes "distinct idx" "p < length idx"
  shows "get_loc idx (idx ! p) = Inr (Position p)"
  by (simp add: get_loc_def hits_distinct [OF assms])

lemma hits_length: "length (filter (\<lambda>p. idx ! p = key) [0..<length idx]) = count_list idx key"
proof (induction idx rule: rev_induct)
  case Nil
  show ?case by simp
next
  case (snoc v idx)
  have "filter (\<lambda>p. (idx @ [v]) ! p = key) [0..<length idx]
      = filter (\<lambda>p. idx ! p = key) [0..<length idx]"
    by (rule filter_cong) (simp_all add: nth_append)
  with snoc show ?case by simp
qed

lemma get_loc_present:
  assumes "key \<in> set idx"
  shows "\<exists>l. get_loc idx key = Inr l"
proof -
  let ?hs = "filter (\<lambda>p. idx ! p = key) [0..<length idx]"
  from assms have "count_list idx key \<noteq> 0" using count_list_0_iff [of idx key] by blast
  then have ne: "?hs \<noteq> []" using hits_length [of idx key] by auto
  show ?thesis
  proof (cases ?hs)
    case Nil
    with ne show ?thesis by simp
  next
    case (Cons p t)
    show ?thesis
    proof (cases t)
      case Nil
      with Cons show ?thesis by (simp add: get_loc_def)
    next
      case (Cons q ps)
      with \<open>?hs = p # t\<close> show ?thesis by (simp add: get_loc_def)
    qed
  qed
qed



lemma zip_filter_positions:
  assumes "length xs = length ys"
  shows "map fst (filter (\<lambda>r. P (snd r)) (zip xs ys))
       = map (\<lambda>p. xs ! p) (filter (\<lambda>p. P (ys ! p)) [0..<length xs])"
  using assms
proof (induction xs arbitrary: ys rule: rev_induct)
  case Nil
  then show ?case by simp
next
  case (snoc x xs)
  from snoc.prems have "length ys = Suc (length xs)" by simp
  then obtain y ys' where ys: "ys = ys' @ [y]" and l: "length ys' = length xs"
    unfolding length_Suc_conv_rev by blast
  have f: "filter (\<lambda>p. P ((ys' @ [y]) ! p)) [0..<length xs]
         = filter (\<lambda>p. P (ys' ! p)) [0..<length xs]"
    using l by (intro filter_cong) (simp_all add: nth_append)
  have m: "map (\<lambda>p. (xs @ [x]) ! p) (filter (\<lambda>p. P (ys' ! p)) [0..<length xs])
         = map (\<lambda>p. xs ! p) (filter (\<lambda>p. P (ys' ! p)) [0..<length xs])"
    by (intro map_cong) (simp_all add: nth_append)
  from snoc.IH [of ys'] l
  have ih: "map fst (filter (\<lambda>r. P (snd r)) (zip xs ys'))
       = map (\<lambda>p. xs ! p) (filter (\<lambda>p. P (ys' ! p)) [0..<length xs])" by simp
  have n: "(ys' @ [y]) ! length xs = y"
    using nth_append_length [of ys' y] l by simp
  show ?case
    unfolding ys using l ih by (simp add: f m n)
qed

lemma rows_of_month_positions:
  assumes "length df = length (index_values (index X))"
  shows "rows_of_month X df key
       = map (\<lambda>p. index_values (index X) ! p)
           (filter (\<lambda>p. df ! p = key) [0..<length (index_values (index X))])"
  unfolding rows_of_month_def
  using zip_filter_positions [of "index_values (index X)" df "\<lambda>k. k = key"] assms
  by simp

lemma rows_of_month_subset: "set (rows_of_month X df key) \<subseteq> set (index_values (index X))"
proof
  fix v assume "v \<in> set (rows_of_month X df key)"
  then obtain r where r: "r \<in> set (zip (index_values (index X)) df)" and v: "v = fst r"
    unfolding rows_of_month_def by auto
  obtain a b where ab: "r = (a, b)" by (cases r)
  from r ab have "a \<in> set (index_values (index X))" by (auto dest: set_zip_leftD)
  with v ab show "v \<in> set (index_values (index X))" by simp
qed


lemma get_locs_present:
  assumes "set elms \<subseteq> set idx"
  shows "\<exists>ls. get_locs idx elms = Inr ls"
  using assms
proof (induction elms)
  case Nil
  show ?case by simp
next
  case (Cons elm elms)
  then obtain ls where "get_locs idx elms = Inr ls" by auto
  moreover from Cons.prems obtain l where "get_loc idx elm = Inr l"
    using get_loc_present [of elm idx] by auto
  ultimately show ?case by simp
qed

lemma get_locs_distinct:
  assumes "distinct idx" "\<forall>p\<in>set ps. p < length idx"
  shows "get_locs idx (map (\<lambda>p. idx ! p) ps) = Inr (map Position ps)"
  using assms(2)
proof (induction ps)
  case Nil
  show ?case by simp
next
  case (Cons p ps)
  then have "get_loc idx (idx ! p) = Inr (Position p)"
    using get_loc_distinct [OF assms(1)] by simp
  with Cons show ?case by simp
qed

lemma split_loop_ok:
  "\<exists>folds. split_loop X df months is = (folds, None) \<and> length folds = length is
     \<and> (\<forall>j<length is.
           get_locs (index_values (index X)) (rows_of_month X df (months ! (is ! j)))
             = Inr (fst (folds ! j))
         \<and> get_locs (index_values (index X)) (rows_of_month X df (months ! (is ! j + 1)))
             = Inr (snd (folds ! j)))"
proof (induction "is")
  case Nil
  show ?case by simp
next
  case (Cons i "is")
  let ?idx = "index_values (index X)"
  from Cons obtain folds where f: "split_loop X df months is = (folds, None)"
    and l: "length folds = length is"
    and r: "\<forall>j<length is.
           get_locs ?idx (rows_of_month X df (months ! (is ! j))) = Inr (fst (folds ! j))
         \<and> get_locs ?idx (rows_of_month X df (months ! (is ! j + 1))) = Inr (snd (folds ! j))"
    by blast
  obtain tr where tr: "get_locs ?idx (rows_of_month X df (months ! i)) = Inr tr"
    using get_locs_present [OF rows_of_month_subset] by blast
  obtain te where te: "get_locs ?idx (rows_of_month X df (months ! (i + 1))) = Inr te"
    using get_locs_present [OF rows_of_month_subset] by blast
  have s: "split_loop X df months (i # is) = ((tr, te) # folds, None)"
    using tr te f by simp
  have "get_locs ?idx (rows_of_month X df (months ! ((i # is) ! j)))
             = Inr (fst (((tr, te) # folds) ! j))
         \<and> get_locs ?idx (rows_of_month X df (months ! ((i # is) ! j + 1)))
             = Inr (snd (((tr, te) # folds) ! j))" if "j < length (i # is)" for j
  proof (cases j)
    case 0
    with tr te show ?thesis by simp
  next
    case (Suc j')
    with that have "j' < length is" by simp
    with r Suc show ?thesis by simp
  qed
  with s l show ?case by simp
qed

lemma get_locs_rows_distinct:
  assumes "distinct (index_values (index X))"
    and "length df = length (index_values (index X))"
  shows "get_locs (index_values (index X)) (rows_of_month X df key)
       = Inr (map Position (filter (\<lambda>p. df ! p = key) [0..<length (index_values (index X))]))"
  unfolding rows_of_month_positions [OF assms(2)]
  by (rule get_locs_distinct [OF assms(1)]) simp

lemma months_sorted_distinct:
  "sort (remdups df) = sorted_list_of_set (set df)"
  by (simp add: sorted_list_of_set_sort_remdups)

lemma split_distinct_index_positions:
  assumes "month_keys time_col X = Inr df"
    and "distinct (index_values (index X))"
    and "length df = length (index_values (index X))"
  shows "\<exists>folds. split time_col X = (folds, None)
     \<and> length folds = card (set df) - 1
     \<and> (\<forall>i<card (set df) - 1.
           folds ! i =
             (map Position (filter (\<lambda>p. df ! p = sorted_list_of_set (set df) ! i)
                              [0..<length (index_values (index X))]),
              map Position (filter (\<lambda>p. df ! p = sorted_list_of_set (set df) ! (i + 1))
                              [0..<length (index_values (index X))])))"
proof -
  let ?idx = "index_values (index X)"
  let ?months = "sort (remdups df)"
  let ?n = "length (remdups df) - 1"
  from split_loop_ok [of X df ?months "[0..<?n]"] obtain folds
    where f: "split_loop X df ?months [0..<?n] = (folds, None)"
      and l: "length folds = length [0..<?n]"
      and r: "\<forall>j<length [0..<?n].
           get_locs ?idx (rows_of_month X df (?months ! ([0..<?n] ! j)))
             = Inr (fst (folds ! j))
         \<and> get_locs ?idx (rows_of_month X df (?months ! ([0..<?n] ! j + 1)))
             = Inr (snd (folds ! j))"
    by blast
  have c: "length (remdups df) = card (set df)" by (rule length_remdups_card_conv)
  have sp: "split time_col X = (folds, None)"
    unfolding split_accepted [OF assms(1)] by (rule f)
  have "length folds = ?n" using l by (simp only: length_upt diff_zero)
  then have len: "length folds = card (set df) - 1" unfolding c .
  have ent: "folds ! i =
             (map Position (filter (\<lambda>p. df ! p = ?months ! i) [0..<length ?idx]),
              map Position (filter (\<lambda>p. df ! p = ?months ! (i + 1)) [0..<length ?idx]))"
    if i: "i < ?n" for i
  proof -
    from i have i': "i < length [0..<?n]" by (simp only: length_upt diff_zero)
    from i have n: "[0..<?n] ! i = i" by (simp only: nth_upt add_0)
    note ri = r [rule_format, OF i']
    have a: "get_locs ?idx (rows_of_month X df (?months ! i)) = Inr (fst (folds ! i))"
      using ri [THEN conjunct1] unfolding n .
    have b: "get_locs ?idx (rows_of_month X df (?months ! (i + 1))) = Inr (snd (folds ! i))"
      using ri [THEN conjunct2] unfolding n .
    from a have "fst (folds ! i) = map Position (filter (\<lambda>p. df ! p = ?months ! i)
                              [0..<length ?idx])"
      unfolding get_locs_rows_distinct [OF assms(2,3)] by (simp only: sum.inject)
    moreover from b have "snd (folds ! i) = map Position
        (filter (\<lambda>p. df ! p = ?months ! (i + 1)) [0..<length ?idx])"
      unfolding get_locs_rows_distinct [OF assms(2,3)] by (simp only: sum.inject)
    ultimately show ?thesis by (simp only: prod_eq_iff fst_conv snd_conv)
  qed
  have "\<forall>i<card (set df) - 1. folds ! i =
             (map Position (filter (\<lambda>p. df ! p = sorted_list_of_set (set df) ! i)
                              [0..<length ?idx]),
              map Position (filter (\<lambda>p. df ! p = sorted_list_of_set (set df) ! (i + 1))
                              [0..<length ?idx]))"
    using ent unfolding c months_sorted_distinct by blast
  with sp len show ?thesis by blast
qed

lemma split_single_month:
  assumes "month_keys time_col X = Inr df" and "card (set df) \<le> 1"
  shows "split time_col X = ([], None)"
proof -
  have "length (remdups df) = card (set df)" by (rule length_remdups_card_conv)
  with assms(2) have "length (remdups df) - 1 = 0" by simp
  then show ?thesis unfolding split_accepted [OF assms(1)] by simp
qed

lemma get_n_splits_index:
  assumes "year_months (index_values (index X)) = Inr ks"
  shows "get_n_splits ''index'' X = Inr (int (card (set ks)) - 1)"
  using assms by (simp add: get_n_splits_def length_remdups_card_conv)

lemma get_n_splits_column:
  assumes "time_col \<noteq> ''index''" "getitem X time_col = Inr (Series s)"
    "year_months (series_values s) = Inr ks"
  shows "get_n_splits time_col X = Inr (int (card (set ks)) - 1)"
  using assms by (simp add: get_n_splits_def length_remdups_card_conv)

text \<open>
  C3, as amended. When the configured time source (the index, or the one
  column of the given name) holds chronological values with \<open>N\<close> distinct
  (year, month) pairs, \<open>get_n_splits\<close> returns \<open>N - 1\<close>. When the table moreover
  passes the check \<open>split\<close> makes of the time source and all rows fall in one
  month, \<open>get_n_splits\<close> returns 0 and \<open>split\<close> ends without error and without
  a fold.
\<close>

theorem get_n_splits_counts_months:
  "(year_months (index_values (index X)) = Inr ks
      \<longrightarrow> get_n_splits ''index'' X = Inr (int (card (set ks)) - 1))
   \<and> (time_col \<noteq> ''index'' \<and> getitem X time_col = Inr (Series s)
        \<and> year_months (series_values s) = Inr ks
      \<longrightarrow> get_n_splits time_col X = Inr (int (card (set ks)) - 1))
   \<and> (month_keys time_col X = Inr df \<and> card (set df) = 1
      \<longrightarrow> get_n_splits time_col X = Inr 0 \<and> split time_col X = ([], None))"
proof (intro conjI impI)
  assume "year_months (index_values (index X)) = Inr ks"
  then show "get_n_splits ''index'' X = Inr (int (card (set ks)) - 1)"
    by (rule get_n_splits_index)
next
  assume "time_col \<noteq> ''index'' \<and> getitem X time_col = Inr (Series s)
        \<and> year_months (series_values s) = Inr ks"
  then show "get_n_splits time_col X = Inr (int (card (set ks)) - 1)"
    using get_n_splits_column by blast
next
  assume a: "month_keys time_col X = Inr df \<and> card (set df) = 1"
  then have mk: "month_keys time_col X = Inr df" and c: "card (set df) = 1" by blast+
  have "length (remdups df) = card (set df)" by (rule length_remdups_card_conv)
  with c month_keys_imp_get_n_splits [OF mk]
  show "get_n_splits time_col X = Inr 0" by simp
next
  assume a: "month_keys time_col X = Inr df \<and> card (set df) = 1"
  then have mk: "month_keys time_col X = Inr df" and c: "card (set df) \<le> 1" by simp_all
  then show "split time_col X = ([], None)" by (rule split_single_month)
qed











lemma pairwise_distances_by_euclidean: "pairwise_distances_by euclidean X Y = pairwise_distances X Y"
  by (simp add: pairwise_distances_by_def pairwise_distances_def)

lemma predict_by_euclidean: "predict_by euclidean argsort self X = predict argsort self X"
  unfolding predict_by_def predict_def pairwise_distances_by_euclidean by (rule refl)

lemma score_by_euclidean: "score_by euclidean argsort self X y = score argsort self X y"
  unfolding score_by_def score_def predict_by_euclidean by (rule refl)










lemma split_example_repeated:
  "split ''index''
       \<lparr>index = \<lparr>is_DatetimeIndex = True, index_dtype = Datetime64_ns,
                 index_values = [Timestamp 2020 11 0, Timestamp 2020 11 0,
                                 Timestamp 2020 12 0]\<rparr>,
        columns = []\<rparr>
     = ([([Slice 0 2, Slice 0 2], [Position 2])], None)"
proof -
  define X where "X = \<lparr>index = \<lparr>is_DatetimeIndex = True, index_dtype = Datetime64_ns,
                 index_values = [Timestamp 2020 11 0, Timestamp 2020 11 0,
                                 Timestamp 2020 12 0]\<rparr>,
        columns = []\<rparr>"
  define df :: "(int \<times> int) list" where "df = [(2020, 11), (2020, 11), (2020, 12)]"
  have mk: "month_keys ''index'' X = Inr df"
    by (simp add: month_keys_def X_def df_def)
  have r: "length (remdups df) - 1 = 1" "sort (remdups df) = [(2020, 11), (2020, 12)]"
    by (simp_all add: df_def)
  have u: "[0..<3] = [0, 1, 2 :: nat]" by (simp add: upt_rec)
  have mono: "is_monotonic_increasing (index_values (index X))"
    by (simp add: is_monotonic_increasing_def X_def)
  have g1: "get_loc (index_values (index X)) (Timestamp 2020 11 0) = Inr (Slice 0 2)"
    using mono by (simp add: get_loc_def X_def u)
  have g2: "get_loc (index_values (index X)) (Timestamp 2020 12 0) = Inr (Position 2)"
    by (simp add: get_loc_def X_def u)
  have r1: "rows_of_month X df (2020, 11) = [Timestamp 2020 11 0, Timestamp 2020 11 0]"
    "rows_of_month X df (2020, 12) = [Timestamp 2020 12 0]"
    by (simp_all add: rows_of_month_def X_def df_def)
  have "split ''index'' X = ([([Slice 0 2, Slice 0 2], [Position 2])], None)"
    unfolding split_accepted [OF mk] r by (simp add: r1 g1 g2)
  then show ?thesis unfolding X_def .
qed

lemma split_example_distinct:
  "split ''index''
       \<lparr>index = \<lparr>is_DatetimeIndex = True, index_dtype = Datetime64_ns,
                 index_values = [Timestamp 2020 11 0, Timestamp 2020 11 5,
                                 Timestamp 2020 12 0]\<rparr>,
        columns = []\<rparr>
     = ([([Position 0, Position 1], [Position 2])], None)"
proof -
  define Y where "Y = \<lparr>index = \<lparr>is_DatetimeIndex = True, index_dtype = Datetime64_ns,
                 index_values = [Timestamp 2020 11 0, Timestamp 2020 11 5,
                                 Timestamp 2020 12 0]\<rparr>,
        columns = []\<rparr>"
  define df :: "(int \<times> int) list" where "df = [(2020, 11), (2020, 11), (2020, 12)]"
  have mkY: "month_keys ''index'' Y = Inr df"
    by (simp add: month_keys_def Y_def df_def)
  have r: "length (remdups df) - 1 = 1" "sort (remdups df) = [(2020, 11), (2020, 12)]"
    by (simp_all add: df_def)
  have u: "[0..<3] = [0, 1, 2 :: nat]" by (simp add: upt_rec)
  have h1: "get_loc (index_values (index Y)) (Timestamp 2020 11 0) = Inr (Position 0)"
    by (simp add: get_loc_def Y_def u)
  have h2: "get_loc (index_values (index Y)) (Timestamp 2020 11 5) = Inr (Position 1)"
    by (simp add: get_loc_def Y_def u)
  have h3: "get_loc (index_values (index Y)) (Timestamp 2020 12 0) = Inr (Position 2)"
    by (simp add: get_loc_def Y_def u)
  have s1: "rows_of_month Y df (2020, 11) = [Timestamp 2020 11 0, Timestamp 2020 11 5]"
    "rows_of_month Y df (2020, 12) = [Timestamp 2020 12 0]"
    by (simp_all add: rows_of_month_def Y_def df_def)
  have "split ''index'' Y = ([([Position 0, Position 1], [Position 2])], None)"
    unfolding split_accepted [OF mkY] r by (simp add: s1 h1 h2 h3)
  then show ?thesis unfolding Y_def .
qed

text \<open>
  C2. The specification and the docstring of \<open>split\<close> promise positional
  indices. On a
  table with a repeated index value the code yields something else: with the
  index values \<open>t, t, u\<close> (\<open>t\<close> in November 2020, \<open>u\<close> in December 2020) the
  train set of the one fold is twice the slice from 0 to 2 that \<open>get_loc\<close>
  answers for \<open>t\<close>, not the positions 0 and 1. On the same table with distinct
  index values the train set is the positions 0 and 1.
\<close>

theorem split_repeated_index_value_yields_slices:
  "split ''index''
       \<lparr>index = \<lparr>is_DatetimeIndex = True, index_dtype = Datetime64_ns,
                 index_values = [Timestamp 2020 11 0, Timestamp 2020 11 0,
                                 Timestamp 2020 12 0]\<rparr>,
        columns = []\<rparr>
     = ([([Slice 0 2, Slice 0 2], [Position 2])], None)
   \<and> split ''index''
       \<lparr>index = \<lparr>is_DatetimeIndex = True, index_dtype = Datetime64_ns,
                 index_values = [Timestamp 2020 11 0, Timestamp 2020 11 5,
                                 Timestamp 2020 12 0]\<rparr>,
        columns = []\<rparr>
     = ([([Position 0, Position 1], [Position 2])], None)"
  using split_example_repeated split_example_distinct by (rule conjI)

theorem get_n_splits_counts_months_witness:
  "get_n_splits ''index''
       \<lparr>index = \<lparr>is_DatetimeIndex = True, index_dtype = Datetime64_ns,
                 index_values = [Timestamp 2020 11 0, Timestamp 2020 11 7]\<rparr>,
        columns = []\<rparr> = Inr 0
   \<and> split ''index''
       \<lparr>index = \<lparr>is_DatetimeIndex = True, index_dtype = Datetime64_ns,
                 index_values = [Timestamp 2020 11 0, Timestamp 2020 11 7]\<rparr>,
        columns = []\<rparr> = ([], None)
   \<and> get_n_splits ''date''
       \<lparr>index = \<lparr>is_DatetimeIndex = False, index_dtype = Int64,
                 index_values = [Number 0, Number 1, Number 2]\<rparr>,
        columns = [(''date'', \<lparr>series_dtype = Datetime64_ns,
                     series_values = [Timestamp 2020 11 0, Timestamp 2020 12 0,
                                      Timestamp 2020 12 4]\<rparr>)]\<rparr> = Inr 1"
proof -
  define X where "X = \<lparr>index = \<lparr>is_DatetimeIndex = True, index_dtype = Datetime64_ns,
                 index_values = [Timestamp 2020 11 0, Timestamp 2020 11 7]\<rparr>,
        columns = []\<rparr>"
  define s where "s = \<lparr>series_dtype = Datetime64_ns,
                     series_values = [Timestamp 2020 11 0, Timestamp 2020 12 0,
                                      Timestamp 2020 12 4]\<rparr>"
  define Y where "Y = \<lparr>index = \<lparr>is_DatetimeIndex = False, index_dtype = Int64,
                 index_values = [Number 0, Number 1, Number 2]\<rparr>,
        columns = [(''date'', s)]\<rparr>"
  define df :: "(int \<times> int) list" where "df = [(2020, 11), (2020, 11)]"
  define ks :: "(int \<times> int) list" where "ks = [(2020, 11), (2020, 12), (2020, 12)]"
  have mk: "month_keys ''index'' X = Inr df" by (simp add: month_keys_def X_def df_def)
  have c: "card (set df) = 1" by (simp add: df_def)
  have g: "getitem Y ''date'' = Inr (Series s)" by (simp add: getitem_def Y_def)
  have y: "year_months (series_values s) = Inr ks" by (simp add: s_def ks_def)
  have c2: "int (card (set ks)) - 1 = 1" by (simp add: ks_def)
  have ne: "''date'' \<noteq> ''index''" by simp
  from get_n_splits_counts_months [of X ks "''index''" s df] mk c
  have a: "get_n_splits ''index'' X = Inr 0 \<and> split ''index'' X = ([], None)" by blast
  from get_n_splits_counts_months [of Y ks "''date''" s df] ne g y
  have "get_n_splits ''date'' Y = Inr (int (card (set ks)) - 1)" by blast
  then have b: "get_n_splits ''date'' Y = Inr 1" unfolding c2 .
  from a b show ?thesis unfolding X_def Y_def s_def by blast
qed

text \<open>
  C3 as stated fails for a table whose time source is a time-zone aware
  column: all rows fall in November 2020 and \<open>get_n_splits\<close> returns 0, but
  \<open>split\<close> ends with the error of the check of the time source, not with an
  empty sequence.
\<close>

theorem split_single_month_counterexample:
  "get_n_splits ''date''
       \<lparr>index = \<lparr>is_DatetimeIndex = False, index_dtype = Int64,
                 index_values = [Number 0, Number 1]\<rparr>,
        columns = [(''date'', \<lparr>series_dtype = Datetime64_ns_tz ''UTC'',
                     series_values = [Timestamp 2020 11 0, Timestamp 2020 11 9]\<rparr>)]\<rparr> = Inr 0
   \<and> split ''date''
       \<lparr>index = \<lparr>is_DatetimeIndex = False, index_dtype = Int64,
                 index_values = [Number 0, Number 1]\<rparr>,
        columns = [(''date'', \<lparr>series_dtype = Datetime64_ns_tz ''UTC'',
                     series_values = [Timestamp 2020 11 0, Timestamp 2020 11 9]\<rparr>)]\<rparr>
     = ([], Some (ValueError ''The splitting column is not a datetime''))"
proof -
  define Y where "Y = \<lparr>index = \<lparr>is_DatetimeIndex = False, index_dtype = Int64,
                 index_values = [Number 0, Number 1]\<rparr>,
        columns = [(''date'', \<lparr>series_dtype = Datetime64_ns_tz ''UTC'',
                     series_values = [Timestamp 2020 11 0, Timestamp 2020 11 9]\<rparr>)]\<rparr>"
  have a: "get_n_splits ''date'' Y = Inr 0"
    by (simp add: get_n_splits_def getitem_def Y_def)
  have "month_keys ''date'' Y = Inl (ValueError ''The splitting column is not a datetime'')"
    by (simp add: month_keys_def getitem_def Y_def)
  then have "split ''date'' Y = ([], Some (ValueError ''The splitting column is not a datetime''))"
    by (rule split_rejected)
  with a show ?thesis unfolding Y_def by blast
qed

lemma split_never_ValueError_after_check:
  assumes "month_keys time_col X = Inr df"
  shows "\<exists>folds. split time_col X = (folds, None)"
  using split_loop_ok [of X df "sort (remdups df)" "[0..<length (remdups df) - 1]"]
  unfolding split_accepted [OF assms] by blast


lemma month_keys_column_rejected:
  assumes "time_col \<noteq> ''index''" "getitem X time_col = Inr (Series s)"
    "series_dtype s \<noteq> Datetime64_ns"
  shows "month_keys time_col X = Inl (ValueError ''The splitting column is not a datetime'')"
  using assms by (simp add: month_keys_def)

lemma month_keys_frame_rejected:
  assumes "time_col \<noteq> ''index''" "getitem X time_col = Inr (DataFrame cs)"
  shows "month_keys time_col X = Inl (ValueError ''The splitting column is not a datetime'')"
  using assms by (simp add: month_keys_def)

lemma month_keys_column_accepted:
  assumes "time_col \<noteq> ''index''" "month_keys time_col X = Inr df"
  shows "\<exists>s. getitem X time_col = Inr (Series s) \<and> series_dtype s = Datetime64_ns
     \<and> year_months (series_values s) = Inr df"
proof (cases "getitem X time_col")
  case (Inl e)
  with assms show ?thesis by (simp add: month_keys_def)
next
  case (Inr sel)
  show ?thesis
  proof (cases sel)
    case (DataFrame cs)
    with Inr assms show ?thesis by (simp add: month_keys_def)
  next
    case (Series s)
    show ?thesis
    proof (cases "series_dtype s = Datetime64_ns")
      case True
      with Series Inr assms show ?thesis by (simp add: month_keys_def)
    next
      case False
      with Series Inr assms show ?thesis by (simp add: month_keys_def)
    qed
  qed
qed

lemma month_keys_index:
  "month_keys ''index'' X =
     (if is_DatetimeIndex (index X) then year_months (index_values (index X))
      else Inl (ValueError ''Index of the DataFrame is not datetime''))"
  by (simp add: month_keys_def)

lemma split_index_no_ValueError:
  assumes "is_DatetimeIndex (index X)"
  shows "snd (split ''index'' X) \<noteq> Some (ValueError msg)"
proof (cases "year_months (index_values (index X))")
  case (Inl e)
  have "e = AttributeError"
  proof (cases "list_all is_timestamp (index_values (index X))")
    case True
    with year_months_good Inl show ?thesis by fastforce
  next
    case False
    with year_months_bad Inl show ?thesis by fastforce
  qed
  moreover from Inl assms have "month_keys ''index'' X = Inl e" by (simp add: month_keys_index)
  then have "split ''index'' X = ([], Some e)" by (rule split_rejected)
  ultimately show ?thesis by simp
next
  case (Inr df)
  with assms have "month_keys ''index'' X = Inr df" by (simp add: month_keys_index)
  from split_never_ValueError_after_check [OF this] show ?thesis by auto
qed

text \<open>
  C10. With a named time column, \<open>split\<close> gets past its check only when
  \<open>X[time_col]\<close> is a \<open>Series\<close> of dtype exactly \<open>datetime64[ns]\<close>: a \<open>Series\<close> of any
  other dtype, a time-zone aware datetime dtype included, and a selection that
  is not a \<open>Series\<close> end \<open>split\<close> with the error "The splitting column is not a
  datetime" before any fold. With the index as time source every
  \<open>DatetimeIndex\<close>, whatever its dtype, gets past the check: \<open>split\<close> never ends
  with a \<open>ValueError\<close>, and ends without error when the values are
  chronological.
\<close>

theorem split_named_column_only_datetime64_ns:
  "(time_col \<noteq> ''index'' \<and> getitem X time_col = Inr (Series s)
      \<and> series_dtype s \<noteq> Datetime64_ns
    \<longrightarrow> split time_col X = ([], Some (ValueError ''The splitting column is not a datetime'')))
   \<and> (time_col \<noteq> ''index'' \<and> getitem X time_col = Inr (Series s)
      \<and> series_dtype s = Datetime64_ns_tz tz
    \<longrightarrow> split time_col X = ([], Some (ValueError ''The splitting column is not a datetime'')))
   \<and> (time_col \<noteq> ''index'' \<and> getitem X time_col = Inr (DataFrame cs)
    \<longrightarrow> split time_col X = ([], Some (ValueError ''The splitting column is not a datetime'')))
   \<and> (time_col \<noteq> ''index'' \<and> month_keys time_col X = Inr df
    \<longrightarrow> (\<exists>s'. getitem X time_col = Inr (Series s') \<and> series_dtype s' = Datetime64_ns))
   \<and> (is_DatetimeIndex (index X) \<longrightarrow> snd (split ''index'' X) \<noteq> Some (ValueError msg))
   \<and> (is_DatetimeIndex (index X) \<and> list_all is_timestamp (index_values (index X))
    \<longrightarrow> (\<exists>folds. split ''index'' X = (folds, None)))"
proof (intro conjI impI)
  assume "time_col \<noteq> ''index'' \<and> getitem X time_col = Inr (Series s)
      \<and> series_dtype s \<noteq> Datetime64_ns"
  then have "month_keys time_col X = Inl (ValueError ''The splitting column is not a datetime'')"
    using month_keys_column_rejected by blast
  then show "split time_col X = ([], Some (ValueError ''The splitting column is not a datetime''))"
    by (rule split_rejected)
next
  assume a: "time_col \<noteq> ''index'' \<and> getitem X time_col = Inr (Series s)
      \<and> series_dtype s = Datetime64_ns_tz tz"
  then have "series_dtype s \<noteq> Datetime64_ns" by simp
  with a have "month_keys time_col X
      = Inl (ValueError ''The splitting column is not a datetime'')"
    using month_keys_column_rejected by blast
  then show "split time_col X = ([], Some (ValueError ''The splitting column is not a datetime''))"
    by (rule split_rejected)
next
  assume "time_col \<noteq> ''index'' \<and> getitem X time_col = Inr (DataFrame cs)"
  then have "month_keys time_col X = Inl (ValueError ''The splitting column is not a datetime'')"
    using month_keys_frame_rejected by blast
  then show "split time_col X = ([], Some (ValueError ''The splitting column is not a datetime''))"
    by (rule split_rejected)
next
  assume "time_col \<noteq> ''index'' \<and> month_keys time_col X = Inr df"
  then show "\<exists>s'. getitem X time_col = Inr (Series s') \<and> series_dtype s' = Datetime64_ns"
    using month_keys_column_accepted by blast
next
  assume "is_DatetimeIndex (index X)"
  then show "snd (split ''index'' X) \<noteq> Some (ValueError msg)"
    by (rule split_index_no_ValueError)
next
  assume a: "is_DatetimeIndex (index X) \<and> list_all is_timestamp (index_values (index X))"
  then obtain df where "year_months (index_values (index X)) = Inr df"
    using year_months_good by blast
  with a have "month_keys ''index'' X = Inr df" by (simp add: month_keys_index)
  then show "\<exists>folds. split ''index'' X = (folds, None)"
    by (rule split_never_ValueError_after_check)
qed

theorem split_named_column_only_datetime64_ns_witness:
  "split ''date''
       \<lparr>index = \<lparr>is_DatetimeIndex = False, index_dtype = Int64,
                 index_values = [Number 0, Number 1]\<rparr>,
        columns = [(''date'', \<lparr>series_dtype = Datetime64_ns_tz ''UTC'',
                     series_values = [Timestamp 2020 11 0, Timestamp 2020 12 0]\<rparr>)]\<rparr>
     = ([], Some (ValueError ''The splitting column is not a datetime''))
   \<and> split ''date''
       \<lparr>index = \<lparr>is_DatetimeIndex = False, index_dtype = Int64,
                 index_values = [Number 0]\<rparr>,
        columns = [(''date'', \<lparr>series_dtype = Datetime64_ns,
                               series_values = [Timestamp 2020 11 0]\<rparr>),
                   (''date'', \<lparr>series_dtype = Datetime64_ns,
                               series_values = [Timestamp 2020 12 0]\<rparr>)]\<rparr>
     = ([], Some (ValueError ''The splitting column is not a datetime''))
   \<and> (\<exists>s'. getitem
         \<lparr>index = \<lparr>is_DatetimeIndex = False, index_dtype = Int64,
                   index_values = [Number 0, Number 1]\<rparr>,
          columns = [(''date'', \<lparr>series_dtype = Datetime64_ns,
                       series_values = [Timestamp 2020 11 0, Timestamp 2020 12 0]\<rparr>)]\<rparr>
         ''date'' = Inr (Series s') \<and> series_dtype s' = Datetime64_ns)
   \<and> (\<exists>folds. split ''index''
         \<lparr>index = \<lparr>is_DatetimeIndex = True, index_dtype = Datetime64_ns_tz ''UTC'',
                   index_values = [Timestamp 2020 11 0, Timestamp 2020 12 0]\<rparr>,
          columns = []\<rparr> = (folds, None))"
proof -
  define s1 where "s1 = \<lparr>series_dtype = Datetime64_ns_tz ''UTC'',
                     series_values = [Timestamp 2020 11 0, Timestamp 2020 12 0]\<rparr>"
  define Y1 where "Y1 = \<lparr>index = \<lparr>is_DatetimeIndex = False, index_dtype = Int64,
                 index_values = [Number 0, Number 1]\<rparr>, columns = [(''date'', s1)]\<rparr>"
  define c1 where "c1 = \<lparr>series_dtype = Datetime64_ns, series_values = [Timestamp 2020 11 0]\<rparr>"
  define c2 where "c2 = \<lparr>series_dtype = Datetime64_ns, series_values = [Timestamp 2020 12 0]\<rparr>"
  define Y2 where "Y2 = \<lparr>index = \<lparr>is_DatetimeIndex = False, index_dtype = Int64,
                 index_values = [Number 0]\<rparr>, columns = [(''date'', c1), (''date'', c2)]\<rparr>"
  define s3 where "s3 = \<lparr>series_dtype = Datetime64_ns,
                       series_values = [Timestamp 2020 11 0, Timestamp 2020 12 0]\<rparr>"
  define Y3 where "Y3 = \<lparr>index = \<lparr>is_DatetimeIndex = False, index_dtype = Int64,
                   index_values = [Number 0, Number 1]\<rparr>, columns = [(''date'', s3)]\<rparr>"
  define X4 where "X4 = \<lparr>index = \<lparr>is_DatetimeIndex = True,
                   index_dtype = Datetime64_ns_tz ''UTC'',
                   index_values = [Timestamp 2020 11 0, Timestamp 2020 12 0]\<rparr>,
          columns = []\<rparr>"
  have ne: "''date'' \<noteq> ''index''" by simp
  have g1: "getitem Y1 ''date'' = Inr (Series s1)" by (simp add: getitem_def Y1_def)
  have t1: "series_dtype s1 = Datetime64_ns_tz ''UTC''" by (simp add: s1_def)
  have g2: "getitem Y2 ''date'' = Inr (DataFrame [c1, c2])" by (simp add: getitem_def Y2_def)
  have m3: "month_keys ''date'' Y3 = Inr [(2020, 11), (2020, 12)]"
    by (simp add: month_keys_def getitem_def Y3_def s3_def)
  have i4: "is_DatetimeIndex (index X4) \<and> list_all is_timestamp (index_values (index X4))"
    by (simp add: X4_def)
  from split_named_column_only_datetime64_ns [of "''date''" Y1 s1 "''UTC''"] ne g1 t1
  have a: "split ''date'' Y1 = ([], Some (ValueError ''The splitting column is not a datetime''))"
    by blast
  from split_named_column_only_datetime64_ns [of "''date''" Y2 s1 "''UTC''" "[c1, c2]"] ne g2
  have b: "split ''date'' Y2 = ([], Some (ValueError ''The splitting column is not a datetime''))"
    by blast
  from split_named_column_only_datetime64_ns
         [of "''date''" Y3 s1 "''UTC''" "[c1, c2]" "[(2020, 11), (2020, 12)]"] ne m3
  have c: "\<exists>s'. getitem Y3 ''date'' = Inr (Series s') \<and> series_dtype s' = Datetime64_ns"
    by blast
  from split_named_column_only_datetime64_ns [of "''date''" X4] i4
  have d: "\<exists>folds. split ''index'' X4 = (folds, None)" by blast
  from a b c d show ?thesis
    unfolding Y1_def s1_def Y2_def c1_def c2_def Y3_def s3_def X4_def by blast
qed













end
